theory Spec2Isabelle
  imports Main "HOL-Library.Sublist"
begin

section \<open>YCrawler: a crawler for news.ycombinator.com\<close>

text \<open>
  A shallow embedding of \<^verbatim>\<open>ycrawler.py\<close>. The coroutines of the source are awaited one
  after the other, so they are embedded as functions that pass an explicit state (the
  number of GET requests issued, the files written, the log records emitted, the
  semaphore) and return a result that is a value, an exception or a block on the
  semaphore. The network, the HTML parser and the file system are the environment: they
  are parameters of every function.
\<close>

subsection \<open>Strings\<close>

text \<open>
  A Python \<^verbatim>\<open>str\<close> is embedded as a \<^typ>\<open>string\<close> whose characters are the code points
  0..255. \<^verbatim>\<open>str.isspace\<close> and \<^verbatim>\<open>str.isalnum\<close> are tabulated on that range.
\<close>

definition isspace :: "char \<Rightarrow> bool" where
  "isspace c = ((of_char c :: nat) \<in> {9, 10, 11, 12, 13, 28, 29, 30, 31, 32, 133, 160})"

definition isalnum :: "char \<Rightarrow> bool" where
  "isalnum c =
     (let n = (of_char c :: nat)
      in (48 \<le> n \<and> n \<le> 57) \<or> (65 \<le> n \<and> n \<le> 90) \<or> (97 \<le> n \<and> n \<le> 122)
         \<or> n = 170 \<or> n = 178 \<or> n = 179 \<or> n = 181 \<or> n = 185 \<or> n = 186
         \<or> (188 \<le> n \<and> n \<le> 190) \<or> (192 \<le> n \<and> n \<le> 214)
         \<or> (216 \<le> n \<and> n \<le> 246) \<or> 248 \<le> n)"

text \<open>\<^verbatim>\<open>s.strip(chars)\<close>: drop the characters of \<open>chars\<close> from both ends.\<close>

definition strip_chars :: "string \<Rightarrow> string \<Rightarrow> string" where
  "strip_chars chars s =
     rev (dropWhile (\<lambda>c. c \<in> set chars) (rev (dropWhile (\<lambda>c. c \<in> set chars) s)))"

text \<open>\<^verbatim>\<open>s.strip()\<close>: drop whitespace from both ends.\<close>

definition strip :: "string \<Rightarrow> string" where
  "strip s = rev (dropWhile isspace (rev (dropWhile isspace s)))"

text \<open>The generator expression of \<^verbatim>\<open>make_safe_filename\<close>, one character at a time.\<close>

definition safe_char :: "char \<Rightarrow> char" where
  "safe_char c = (if isalnum c \<or> isspace c then c else CHR ''_'')"

definition make_safe_filename :: "string \<Rightarrow> string" where
  "make_safe_filename text = strip_chars ''_ '' (map safe_char text) @ ''.html''"

text \<open>\<^verbatim>\<open>str(n)\<close> for a natural number, as the f-strings format \<^verbatim>\<open>link_num\<close>.\<close>

definition digit_char :: "nat \<Rightarrow> char" where
  "digit_char d = ''0123456789'' ! d"

fun str_nat :: "nat \<Rightarrow> string" where
  "str_nat n = (if n < 10 then [digit_char n] else str_nat (n div 10) @ [digit_char (n mod 10)])"

declare str_nat.simps [simp del]

text \<open>\<^verbatim>\<open>s.split(d)\<close> and \<^verbatim>\<open>d.join(ws)\<close>.\<close>

fun split_on :: "char \<Rightarrow> string \<Rightarrow> string list" where
  "split_on d [] = [[]]"
| "split_on d (c # cs) =
     (if c = d then [] # split_on d cs
      else (case split_on d cs of [] \<Rightarrow> [[c]] | w # ws \<Rightarrow> (c # w) # ws))"

fun join_with :: "string \<Rightarrow> string list \<Rightarrow> string" where
  "join_with d [] = []"
| "join_with d [w] = w"
| "join_with d (w # ws) = w @ d @ join_with d ws"

text \<open>\<^verbatim>\<open>.split("?")[0]\<close>: the text before the first question mark.\<close>

definition before_query :: "string \<Rightarrow> string" where
  "before_query s = takeWhile (\<lambda>c. c \<noteq> CHR ''?'') s"

subsection \<open>Paths\<close>

text \<open>
  \<^verbatim>\<open>pathlib.Path\<close> on a POSIX system. A path is its root (empty, one slash, or two
  slashes when the text starts with exactly two) and its components; empty components
  and \<^verbatim>\<open>.\<close> components are dropped when the text is parsed. \<^verbatim>\<open>p / seg\<close> is the
  segment alone when the segment has a root, and \<open>p\<close> with the components of the segment
  otherwise. \<^verbatim>\<open>str\<close> of the empty path is a dot. \<^verbatim>\<open>p.name\<close> is the last component,
  or empty.
\<close>

record path =
  anchor :: string
  parts :: "string list"

definition Path :: "string \<Rightarrow> path" where
  "Path s =
     \<lparr>anchor =
        (if take 2 s = ''//'' \<and> take 3 s \<noteq> ''///'' then ''//''
         else if take 1 s = ''/'' then ''/''
         else []),
      parts = filter (\<lambda>w. w \<noteq> [] \<and> w \<noteq> ''.'') (split_on CHR ''/'' s)\<rparr>"

definition truediv :: "path \<Rightarrow> string \<Rightarrow> path" where
  "truediv p seg =
     (let q = Path seg
      in if anchor q \<noteq> [] then q else p\<lparr>parts := parts p @ parts q\<rparr>)"

definition path_str :: "path \<Rightarrow> string" where
  "path_str p =
     (if anchor p = [] \<and> parts p = [] then ''.''
      else anchor p @ join_with ''/'' (parts p))"

definition path_name :: "path \<Rightarrow> string" where
  "path_name p = (if parts p = [] then [] else last (parts p))"

subsection \<open>Exceptions and results\<close>

datatype exn =
  TimeoutError | ClientError | CancelledError | KeyboardInterrupt
  | IndexError | KeyError | AttributeError | ValueError | OSError

text \<open>
  A coroutine returns a value, raises, or never gets past \<^verbatim>\<open>async with self.semaphore\<close>
  (a semaphore created with no permit).
\<close>

datatype 'a result = Return 'a | Raise exn | Blocked

subsection \<open>The crawler object\<close>


text \<open>
  The fields \<^verbatim>\<open>__init__\<close> sets. The field \<open>semaphore\<close> is the value the semaphore is
  created with; the permits it has left at a given moment are part of the state.
\<close>

record crawler =
  site :: string
  sleep :: int
  top_news_count :: int
  root :: string
  run_once :: bool
  semaphore :: nat


subsection \<open>The environment: network and parsed markup\<close>

type_synonym bytes = string

text \<open>What \<^verbatim>\<open>session.get\<close> and \<^verbatim>\<open>r.read()\<close> do: a response, or an exception.\<close>

datatype outcome = Response bytes string int | Raises exn

text \<open>
  What the source reads from a parsed page. An anchor has its text and perhaps an
  \<^verbatim>\<open>href\<close>; a story entry (a tag of class \<^verbatim>\<open>athing\<close>) has perhaps an \<^verbatim>\<open>id\<close> and, for
  each tag of class \<^verbatim>\<open>titleline\<close> in it, the first anchor of that tag, if any; a
  comment row has perhaps an \<^verbatim>\<open>id\<close> and, if it has a tag of class \<^verbatim>\<open>commtext c00\<close>,
  the \<^verbatim>\<open>href\<close> of each anchor in it; the first table of a page has its entries and
  perhaps a comment tree with its comment rows.
\<close>

record anchor =
  a_text :: string
  a_href :: "string option"

record entry =
  e_id :: "string option"
  titlelines :: "anchor option list"

record comment =
  c_id :: "string option"
  commtext :: "string option list option"

record table =
  athings :: "entry list"
  comment_tree :: "comment list option"

type_synonym document = "table option"

subsection \<open>The state: requests, files, log, semaphore\<close>

datatype log_record =
  ReadURL string "int option" nat
  | TimedOut string
  | CommentLinkError "int option" string
  | ParsingItem string
  | NoResponse string "int option"
  | News string string string
  | MainPageError "int option"
  | Starting
  | StartCrawling
  | NoNewsFound
  | AlreadyParsed string
  | EndCycle
  | Waiting int
  | Repeat

text \<open>
  \<open>clock\<close> counts the GET requests issued, \<open>files\<close> lists the writes that were done,
  the latest last, \<open>permits\<close> is the value of \<^verbatim>\<open>self.semaphore\<close>. Two counters
  instrument the fetcher: \<open>in_flight\<close> is the number of requests that are open, and
  \<open>peak\<close> is the largest number of requests that were ever open at once.
\<close>

record state =
  clock :: nat
  files :: "(string \<times> bytes) list"
  log :: "log_record list"
  permits :: nat
  in_flight :: nat
  peak :: nat

text \<open>
  \<open>net n url\<close> is what the \<open>n\<close>-th GET of the process gets when it asks for \<open>url\<close>;
  \<open>soup\<close> is \<^verbatim>\<open>BeautifulSoup(response, features="html.parser")\<close>; \<open>disk s fp\<close> is
  the exception, if any, that creating the directories of \<open>fp\<close> and writing the file
  raises when the process is in state \<open>s\<close>.
\<close>

record env =
  net :: "nat \<Rightarrow> string \<Rightarrow> outcome"
  soup :: "bytes \<Rightarrow> document"
  disk :: "state \<Rightarrow> string \<Rightarrow> exn option"

definition logging :: "log_record \<Rightarrow> state \<Rightarrow> state" where
  "logging r s = s\<lparr>log := log s @ [r]\<rparr>"

text \<open>Sequencing: an exception or a block ends the rest.\<close>

definition then_do ::
  "'a result \<times> state \<Rightarrow> ('a \<Rightarrow> state \<Rightarrow> 'b result \<times> state) \<Rightarrow> 'b result \<times> state" where
  "then_do m f =
     (case m of
        (Return x, s) \<Rightarrow> f x s
      | (Raise e, s) \<Rightarrow> (Raise e, s)
      | (Blocked, s) \<Rightarrow> (Blocked, s))"

text \<open>
  \<^verbatim>\<open>write_file\<close> has no handler: what \<^verbatim>\<open>makedirs\<close>, \<^verbatim>\<open>open\<close> or \<^verbatim>\<open>write\<close> raises
  goes to the caller, and then no file is recorded.
\<close>

definition write_file :: "env \<Rightarrow> path \<Rightarrow> bytes \<Rightarrow> state \<Rightarrow> unit result \<times> state" where
  "write_file e fp content s =
     (case disk e s (path_str fp) of
        None \<Rightarrow> (Return (), s\<lparr>files := files s @ [(path_str fp, content)]\<rparr>)
      | Some x \<Rightarrow> (Raise x, s))"

text \<open>\<^verbatim>\<open>not response\<close>: the payload is \<^verbatim>\<open>None\<close> or empty.\<close>

definition falsy :: "bytes option \<Rightarrow> bool" where
  "falsy response = (case response of None \<Rightarrow> True | Some b \<Rightarrow> b = [])"

subsection \<open>read\_url\<close>

text \<open>
  The four moments of a fetch: \<^verbatim>\<open>async with self.semaphore\<close> takes a permit, the
  request is open from \<^verbatim>\<open>session.get\<close> on, the request is closed when that block is
  left, and the permit is given back when the outer block is left, by a return or by an
  exception. Without a permit the coroutine waits, and nothing else runs that could give
  one back.
\<close>

definition acquire :: "state \<Rightarrow> state" where
  "acquire s = s\<lparr>permits := permits s - 1\<rparr>"

definition open_request :: "state \<Rightarrow> state" where
  "open_request s =
     s\<lparr>clock := clock s + 1, in_flight := in_flight s + 1,
       peak := max (peak s) (in_flight s + 1)\<rparr>"

definition close_request :: "state \<Rightarrow> state" where
  "close_request s = s\<lparr>in_flight := in_flight s - 1\<rparr>"

definition release :: "state \<Rightarrow> state" where
  "release s = s\<lparr>permits := permits s + 1\<rparr>"

definition read_url ::
  "crawler \<Rightarrow> env \<Rightarrow> string \<Rightarrow> state
     \<Rightarrow> (bytes option \<times> string option \<times> int option) result \<times> state" where
  "read_url self e url s =
     (if permits s = 0 then (Blocked, s)
      else
        (let s1 = release (close_request (open_request (acquire s)))
         in case net e (clock s) url of
              Response body ctype code \<Rightarrow>
                (Return (Some body, Some ctype, Some code),
                 logging (ReadURL url (Some code) (length body)) s1)
            | Raises TimeoutError \<Rightarrow>
                (Return (None, None, Some 408), logging (TimedOut url) s1)
            | Raises x \<Rightarrow> (Raise x, s1)))"

subsection \<open>parse\_comments\<close>

definition comment_fname :: "string \<Rightarrow> nat \<Rightarrow> string option \<Rightarrow> string \<Rightarrow> string" where
  "comment_fname comm_id link_num content_type comm_url =
     (if content_type = Some ''text/html'' then comm_id @ ''_'' @ str_nat link_num @ ''.html''
      else comm_id @ ''_'' @ str_nat link_num @ ''_''
             @ before_query (path_name (Path comm_url)))"

text \<open>The inner loop, over the links of one comment; \<open>link_num\<close> is its counter.\<close>

fun comment_links ::
  "crawler \<Rightarrow> env \<Rightarrow> path \<Rightarrow> string \<Rightarrow> string list \<Rightarrow> nat \<Rightarrow> state \<Rightarrow> unit result \<times> state" where
  "comment_links self e comm_index_dir comm_id [] link_num s = (Return (), s)"
| "comment_links self e comm_index_dir comm_id (comm_url # comm_urls) link_num s =
     then_do (read_url self e comm_url s) (\<lambda>(response, content_type, status) s1.
       if falsy response \<or> status \<noteq> Some 200
       then comment_links self e comm_index_dir comm_id comm_urls link_num
              (logging (CommentLinkError status comm_url) s1)
       else then_do
              (write_file e
                 (truediv comm_index_dir (comment_fname comm_id link_num content_type comm_url))
                 (the response) s1)
              (\<lambda>_ s2. comment_links self e comm_index_dir comm_id comm_urls (link_num + 1) s2))"

text \<open>The list comprehension over the anchors: a missing \<^verbatim>\<open>href\<close> raises.\<close>

definition hrefs :: "string option list \<Rightarrow> exn + string list" where
  "hrefs anchors = (if None \<in> set anchors then Inl KeyError else Inr (map the anchors))"

text \<open>The outer loop, over the comment rows.\<close>

fun comment_rows ::
  "crawler \<Rightarrow> env \<Rightarrow> path \<Rightarrow> comment list \<Rightarrow> state \<Rightarrow> unit result \<times> state" where
  "comment_rows self e comm_index_dir [] s = (Return (), s)"
| "comment_rows self e comm_index_dir (c # cs) s =
     (case c_id c of
        None \<Rightarrow> (Raise KeyError, s)
      | Some comm_id \<Rightarrow>
          (case hrefs (case commtext c of None \<Rightarrow> [] | Some anchors \<Rightarrow> anchors) of
             Inl x \<Rightarrow> (Raise x, s)
           | Inr comm_urls \<Rightarrow>
               then_do (comment_links self e comm_index_dir comm_id comm_urls 0 s)
                 (\<lambda>_ s1. comment_rows self e comm_index_dir cs s1)))"

definition parse_comments ::
  "crawler \<Rightarrow> env \<Rightarrow> bytes \<Rightarrow> entry \<Rightarrow> state \<Rightarrow> unit result \<times> state" where
  "parse_comments self e response item s =
     (case soup e response of
        None \<Rightarrow> (Raise AttributeError, s)
      | Some tbl \<Rightarrow>
          (let comment_items = (case comment_tree tbl of None \<Rightarrow> [] | Some rows \<Rightarrow> rows)
           in if comment_items = [] then (Return (), s)
              else
                (case e_id item of
                   None \<Rightarrow> (Raise KeyError, s)
                 | Some i \<Rightarrow>
                     comment_rows self e
                       (truediv (truediv (Path (root self)) i) ''comments'')
                       comment_items s)))"

subsection \<open>parse\_item\<close>

definition item_url :: "crawler \<Rightarrow> string \<Rightarrow> string" where
  "item_url self i = site self @ ''/item?id='' @ i"

definition parse_item ::
  "crawler \<Rightarrow> env \<Rightarrow> entry \<Rightarrow> state \<Rightarrow> (string \<times> string) option result \<times> state" where
  "parse_item self e item s =
     (case e_id item of
        None \<Rightarrow> (Raise KeyError, s)
      | Some i \<Rightarrow>
          (let url = item_url self i
           in then_do (read_url self e url (logging (ParsingItem url) s))
                (\<lambda>(response, _, status) s1.
                   if falsy response then (Return None, logging (NoResponse url status) s1)
                   else
                     (case titlelines item of
                        [] \<Rightarrow> (Raise IndexError, s1)
                      | None # _ \<Rightarrow> (Raise AttributeError, s1)
                      | Some a # _ \<Rightarrow>
                          (let name = strip (a_text a)
                           in case a_href a of
                                None \<Rightarrow> (Raise KeyError, s1)
                              | Some href \<Rightarrow>
                                  then_do
                                    (write_file e
                                       (truediv (truediv (Path (root self)) i)
                                          (make_safe_filename name))
                                       (the response) (logging (News i name href) s1))
                                    (\<lambda>_ s2.
                                       then_do (parse_comments self e (the response) item s2)
                                         (\<lambda>_ s3. (Return (Some (name, url)), s3))))))))"

subsection \<open>parse\_main\_page\<close>

definition parse_main_page ::
  "crawler \<Rightarrow> env \<Rightarrow> state \<Rightarrow> entry list option result \<times> state" where
  "parse_main_page self e s =
     then_do (read_url self e (site self) s) (\<lambda>(response, _, status) s1.
       if falsy response \<or> status \<noteq> Some 200
       then (Return None, logging (MainPageError status) s1)
       else
         (case soup e (the response) of
            None \<Rightarrow> (Raise AttributeError, s1)
          | Some tbl \<Rightarrow> (Return (Some (athings tbl)), s1)))"

subsection \<open>run\<close>

text \<open>\<^verbatim>\<open>news[:k]\<close>: a negative \<open>k\<close> counts from the end.\<close>

definition slice_to :: "int \<Rightarrow> 'a list \<Rightarrow> 'a list" where
  "slice_to k xs = (if 0 \<le> k then take (nat k) xs else take (length xs - nat (- k)) xs)"

type_synonym seen = "string \<rightharpoonup> string \<times> string"

text \<open>
  The body of the \<^verbatim>\<open>for\<close> loop of \<^verbatim>\<open>run\<close>, with \<^verbatim>\<open>parsed_news\<close>: it goes on to
  the next entry or leaves the loop. \<^verbatim>\<open>KeyboardInterrupt\<close> is the one exception it
  catches.
\<close>

datatype loop_ctl = Continue | Break

definition news_step ::
  "crawler \<Rightarrow> env \<Rightarrow> entry \<Rightarrow> seen \<Rightarrow> state \<Rightarrow> loop_ctl result \<times> seen \<times> state" where
  "news_step self e news_item parsed_news s =
     (case e_id news_item of
        None \<Rightarrow> (Raise KeyError, parsed_news, s)
      | Some i \<Rightarrow>
          (if parsed_news i = None then
             (case parse_item self e news_item s of
                (Return None, s1) \<Rightarrow> (Return Continue, parsed_news, s1)
              | (Return (Some name_url_tpl), s1) \<Rightarrow>
                  (Return Continue, parsed_news(i \<mapsto> name_url_tpl), s1)
              | (Raise KeyboardInterrupt, s1) \<Rightarrow> (Return Break, parsed_news, s1)
              | (Raise x, s1) \<Rightarrow> (Raise x, parsed_news, s1)
              | (Blocked, s1) \<Rightarrow> (Blocked, parsed_news, s1))
           else (Return Continue, parsed_news, logging (AlreadyParsed i) s)))"

text \<open>
  The \<^verbatim>\<open>for\<close> loop over the selected entries. It returns \<open>Continue\<close> when it has
  gone through all of them and \<open>Break\<close> when it was left early.
\<close>

fun for_news ::
  "crawler \<Rightarrow> env \<Rightarrow> entry list \<Rightarrow> seen \<Rightarrow> state \<Rightarrow> loop_ctl result \<times> seen \<times> state" where
  "for_news self e [] parsed_news s = (Return Continue, parsed_news, s)"
| "for_news self e (news_item # rest) parsed_news s =
     (case news_step self e news_item parsed_news s of
        (Return Continue, pn, s1) \<Rightarrow> for_news self e rest pn s1
      | other \<Rightarrow> other)"

text \<open>
  The \<^verbatim>\<open>while True\<close> loop, with fuel: the number of polling cycles it may start.
  \<open>None\<close> is a crawler that is still running when the fuel is spent.
\<close>

fun cycles ::
  "nat \<Rightarrow> crawler \<Rightarrow> env \<Rightarrow> seen \<Rightarrow> state \<Rightarrow> unit result option \<times> seen \<times> state" where
  "cycles 0 self e parsed_news s = (None, parsed_news, s)"
| "cycles (Suc fuel) self e parsed_news s =
     (case parse_main_page self e s of
        (Raise x, s1) \<Rightarrow> (Some (Raise x), parsed_news, s1)
      | (Blocked, s1) \<Rightarrow> (Some Blocked, parsed_news, s1)
      | (Return news, s1) \<Rightarrow>
          (if news = None \<or> news = Some [] then
             (Some (Return ()), parsed_news, logging NoNewsFound s1)
           else
             (case for_news self e (slice_to (top_news_count self) (the news)) parsed_news s1 of
                (Raise x, pn, s2) \<Rightarrow> (Some (Raise x), pn, s2)
              | (Blocked, pn, s2) \<Rightarrow> (Some Blocked, pn, s2)
              | (Return _, pn, s2) \<Rightarrow>
                  (if run_once self then (Some (Return ()), pn, logging EndCycle s2)
                   else cycles fuel self e pn
                          (logging Repeat (logging (Waiting (sleep self)) (logging EndCycle s2)))))))"


subsection \<open>Reading the log\<close>

text \<open>
  Each call of \<^verbatim>\<open>parse_item\<close> starts with the record \<^verbatim>\<open>Parsing item <url>\<close>, each
  entry the loop skips leaves \<^verbatim>\<open>News item <id> already parsed\<close>. So the log counts
  the invocations of the story processor for an identifier, and lists the entries the
  loop has considered.
\<close>

definition invocations :: "crawler \<Rightarrow> string \<Rightarrow> state \<Rightarrow> nat" where
  "invocations self i s = length (filter (\<lambda>r. r = ParsingItem (item_url self i)) (log s))"

fun dispatch_record :: "log_record \<Rightarrow> bool" where
  "dispatch_record (ParsingItem u) = True"
| "dispatch_record (AlreadyParsed i) = True"
| "dispatch_record r = False"



text \<open>
  The semaphore and the instrumentation agree with a semaphore created with \<open>cap\<close>
  permits: the open requests hold the permits that are not free, and there were never
  more than \<open>cap\<close> of them.
\<close>

definition gate_inv :: "nat \<Rightarrow> state \<Rightarrow> bool" where
  "gate_inv cap s = (in_flight s + permits s = cap \<and> peak s \<le> cap)"

text \<open>
  A state that extends another: more files, more log records, of the fetches and the
  stories only, and a semaphore that is as it was.
\<close>

definition extends :: "state \<Rightarrow> state \<Rightarrow> bool" where
  "extends s s' =
     ((\<exists>new. log s' = log s @ new \<and> filter dispatch_record new = [])
      \<and> (\<exists>written. files s' = files s @ written)
      \<and> permits s' = permits s \<and> in_flight s' = in_flight s
      \<and> (\<forall>cap. gate_inv cap s \<longrightarrow> gate_inv cap s'))"

text \<open>
  The files the inner loop of \<^verbatim>\<open>parse_comments\<close> writes for the links it has archived,
  in their order: each is a URL with the content type and the payload it came with.
\<close>

definition archived_as ::
  "path \<Rightarrow> string \<Rightarrow> nat \<Rightarrow> (string \<times> string option \<times> bytes) list \<Rightarrow> (string \<times> bytes) list" where
  "archived_as comm_index_dir comm_id link_num links =
     map (\<lambda>(k, comm_url, content_type, body).
            (path_str
               (truediv comm_index_dir
                  (comment_fname comm_id (link_num + k) content_type comm_url)),
             body))
       (enumerate 0 links)"

subsection \<open>An example site\<close>

text \<open>
  A front page that lists story 123, story 124 and story 123 again. The page of story
  123 shows the story under an edited title, and has one comment, \<open>c1\<close>, with two
  links, of which the first one times out; \<open>c0\<close> is a comment with no text and \<open>c2\<close>
  one with two links that answer. Story 124
  times out, story 125 answers 503 with a body that has no table, story 126 answers 404
  with a page that has a table and no comments, and the connection fails for story 127
  and for one host. Every write succeeds.
\<close>

definition story_123 :: entry where
  "story_123 =
     \<lparr>e_id = Some ''123'',
      titlelines = [Some \<lparr>a_text = ''Hello World'', a_href = Some ''http://x/a''\<rparr>]\<rparr>"

definition story_123_page :: entry where
  "story_123_page =
     \<lparr>e_id = Some ''123'',
      titlelines = [Some \<lparr>a_text = ''Hello World!'', a_href = Some ''http://x/a''\<rparr>]\<rparr>"

definition story_124 :: entry where
  "story_124 =
     \<lparr>e_id = Some ''124'',
      titlelines = [Some \<lparr>a_text = ''Second'', a_href = Some ''http://x/c''\<rparr>]\<rparr>"

definition story_125 :: entry where
  "story_125 =
     \<lparr>e_id = Some ''125'',
      titlelines = [Some \<lparr>a_text = ''Third'', a_href = Some ''http://x/d''\<rparr>]\<rparr>"

definition story_126 :: entry where
  "story_126 =
     \<lparr>e_id = Some ''126'',
      titlelines = [Some \<lparr>a_text = '' Fourth '', a_href = Some ''http://x/e''\<rparr>]\<rparr>"

definition story_127 :: entry where
  "story_127 =
     \<lparr>e_id = Some ''127'',
      titlelines = [Some \<lparr>a_text = ''Fifth'', a_href = Some ''http://x/f''\<rparr>]\<rparr>"

definition comment_c0 :: comment where
  "comment_c0 = \<lparr>c_id = Some ''c0'', commtext = None\<rparr>"

definition comment_c1 :: comment where
  "comment_c1 =
     \<lparr>c_id = Some ''c1'', commtext = Some [Some ''http://x/dead'', Some ''http://x/b'']\<rparr>"

definition comment_c2 :: comment where
  "comment_c2 =
     \<lparr>c_id = Some ''c2'', commtext = Some [Some ''http://x/b'', Some ''http://x/b'']\<rparr>"

definition example_soup :: "bytes \<Rightarrow> document" where
  "example_soup b =
     (if b = ''<front>''
      then Some \<lparr>athings = [story_123, story_124, story_123], comment_tree = None\<rparr>
      else if b = ''<item 123>''
      then Some \<lparr>athings = [story_123_page],
                  comment_tree = Some [comment_c1]\<rparr>
      else if b = ''<item 126>'' then Some \<lparr>athings = [story_126], comment_tree = None\<rparr>
      else None)"

definition example_net :: "nat \<Rightarrow> string \<Rightarrow> outcome" where
  "example_net n url =
     (if url = ''https://news.ycombinator.com'' then Response ''<front>'' ''text/html'' 200
      else if url = ''https://news.ycombinator.com/item?id=123''
      then Response ''<item 123>'' ''text/html'' 200
      else if url = ''https://news.ycombinator.com/item?id=125''
      then Response ''Sorry'' ''text/html'' 503
      else if url = ''https://news.ycombinator.com/item?id=126''
      then Response ''<item 126>'' ''text/html'' 404
      else if url = ''http://x/b'' then Response ''<b>'' ''text/html'' 200
      else if url = ''https://news.ycombinator.com/item?id=127'' then Raises ClientError
      else if url = ''http://x/gone'' then Raises ClientError
      else Raises TimeoutError)"

definition example_env :: env where
  "example_env = \<lparr>net = example_net, soup = example_soup, disk = (\<lambda>s fp. None)\<rparr>"

definition example_crawler :: crawler where
  "example_crawler =
     \<lparr>site = ''https://news.ycombinator.com'', sleep = 60, top_news_count = 3, root = ''web'',
      run_once = True, semaphore = 10\<rparr>"

definition start :: state where
  "start = \<lparr>clock = 0, files = [], log = [], permits = 10, in_flight = 0, peak = 0\<rparr>"

section \<open>Properties\<close>

subsection \<open>Filename sanitization\<close>

lemma rev_dropWhile_split:
  "rev (dropWhile P (rev xs)) @ rev (takeWhile P (rev xs)) = xs"
proof -
  have "rev (takeWhile P (rev xs) @ dropWhile P (rev xs)) = xs"
    by (simp only: takeWhile_dropWhile_id rev_rev_ident)
  then show ?thesis by (simp only: rev_append)
qed

lemma strip_chars_split:
  "dropWhile (\<lambda>c. c \<in> set cs) s =
     strip_chars cs s @ rev (takeWhile (\<lambda>c. c \<in> set cs) (rev (dropWhile (\<lambda>c. c \<in> set cs) s)))"
  unfolding strip_chars_def by (rule rev_dropWhile_split [symmetric])

lemma strip_chars_decomp:
  "\<exists>pre suf. s = pre @ strip_chars cs s @ suf \<and> set pre \<subseteq> set cs \<and> set suf \<subseteq> set cs"
proof -
  let ?P = "\<lambda>c. c \<in> set cs"
  let ?m = "dropWhile ?P s"
  let ?suf = "rev (takeWhile ?P (rev ?m))"
  have "s = takeWhile ?P s @ ?m" by simp
  then have a: "s = takeWhile ?P s @ strip_chars cs s @ ?suf"
    using strip_chars_split [of cs s] by simp
  have c: "set (takeWhile ?P s) \<subseteq> set cs"
    by (auto dest: set_takeWhileD)
  have d: "set ?suf \<subseteq> set cs"
    by (auto dest: set_takeWhileD)
  from a c d show ?thesis by blast
qed

lemma strip_chars_last: "strip_chars cs s \<noteq> [] \<Longrightarrow> last (strip_chars cs s) \<notin> set cs"
proof -
  assume ne: "strip_chars cs s \<noteq> []"
  let ?P = "\<lambda>c. c \<in> set cs"
  let ?r = "rev (dropWhile ?P s)"
  from ne have n2: "dropWhile ?P ?r \<noteq> []" by (simp only: strip_chars_def rev_is_Nil_conv not_False_eq_True)
  have "last (strip_chars cs s) = hd (dropWhile ?P ?r)"
    unfolding strip_chars_def using n2 by (simp only: last_rev)
  with hd_dropWhile [OF n2] show ?thesis by simp
qed

lemma strip_chars_hd: "strip_chars cs s \<noteq> [] \<Longrightarrow> hd (strip_chars cs s) \<notin> set cs"
proof -
  assume ne: "strip_chars cs s \<noteq> []"
  let ?P = "\<lambda>c. c \<in> set cs"
  let ?m = "dropWhile ?P s"
  have b: "?m = strip_chars cs s @ rev (takeWhile ?P (rev ?m))"
    by (rule strip_chars_split)
  with ne have h: "hd ?m = hd (strip_chars cs s)" by (metis hd_append2)
  from b ne have "?m \<noteq> []" by (metis append_is_Nil_conv)
  from hd_dropWhile [OF this] h show ?thesis by simp
qed

text \<open>
  C6, as the code has it. \<^verbatim>\<open>make_safe_filename\<close> replaces every character that is
  neither alphanumeric nor whitespace by an underscore, then removes from both ends the
  underscores and the space characters (what \<^verbatim>\<open>strip('_ ')\<close> removes: other whitespace
  stays), and appends \<^verbatim>\<open>.html\<close>. The name made from \<^verbatim>\<open>A/B: C?\<close> is
  \<^verbatim>\<open>A_B_ C.html\<close>.
\<close>

theorem make_safe_filename_spec:
  "(\<exists>pre stem suf.
      map (\<lambda>c. if isalnum c \<or> isspace c then c else CHR ''_'') text = pre @ stem @ suf
      \<and> set pre \<subseteq> {CHR ''_'', CHR '' ''} \<and> set suf \<subseteq> {CHR ''_'', CHR '' ''}
      \<and> (stem = [] \<or> (hd stem \<notin> {CHR ''_'', CHR '' ''} \<and> last stem \<notin> {CHR ''_'', CHR '' ''}))
      \<and> make_safe_filename text = stem @ ''.html'')
   \<and> make_safe_filename ''A/B: C?'' = ''A_B_ C.html''"
proof
  let ?t = "map safe_char text"
  let ?stem = "strip_chars ''_ '' ?t"
  obtain pre suf where d: "?t = pre @ ?stem @ suf"
    "set pre \<subseteq> set ''_ ''" "set suf \<subseteq> set ''_ ''"
    using strip_chars_decomp by blast
  have e: "map (\<lambda>c. if isalnum c \<or> isspace c then c else CHR ''_'') text = ?t"
    by (simp add: safe_char_def)
  have h: "?stem = [] \<or>
      (hd ?stem \<notin> {CHR ''_'', CHR '' ''} \<and> last ?stem \<notin> {CHR ''_'', CHR '' ''})"
    using strip_chars_hd [of "''_ ''" ?t] strip_chars_last [of "''_ ''" ?t] by auto
  show "\<exists>pre stem suf.
      map (\<lambda>c. if isalnum c \<or> isspace c then c else CHR ''_'') text = pre @ stem @ suf
      \<and> set pre \<subseteq> {CHR ''_'', CHR '' ''} \<and> set suf \<subseteq> {CHR ''_'', CHR '' ''}
      \<and> (stem = [] \<or> (hd stem \<notin> {CHR ''_'', CHR '' ''} \<and> last stem \<notin> {CHR ''_'', CHR '' ''}))
      \<and> make_safe_filename text = stem @ ''.html''"
    apply (rule exI [of _ pre], rule exI [of _ ?stem], rule exI [of _ suf])
    using d e h by (simp add: make_safe_filename_def)
next
  show "make_safe_filename ''A/B: C?'' = ''A_B_ C.html''"
    by (simp add: make_safe_filename_def strip_chars_def safe_char_def isalnum_def isspace_def)
qed

theorem make_safe_filename_spec_witness:
  "\<exists>pre stem suf.
      ''A_B_ C_'' = pre @ stem @ suf
      \<and> set pre \<subseteq> {CHR ''_'', CHR '' ''} \<and> set suf \<subseteq> {CHR ''_'', CHR '' ''}
      \<and> (stem = [] \<or> (hd stem \<notin> {CHR ''_'', CHR '' ''} \<and> last stem \<notin> {CHR ''_'', CHR '' ''}))
      \<and> make_safe_filename ''A/B: C?'' = stem @ ''.html''"
proof -
  have e: "map (\<lambda>c. if isalnum c \<or> isspace c then c else CHR ''_'') ''A/B: C?'' = ''A_B_ C_''"
    by (simp add: isalnum_def isspace_def)
  from make_safe_filename_spec [of "''A/B: C?''"] show ?thesis
    unfolding e by (rule conjunct1)
qed

text \<open>
  C6 as stated fails: a leading tab is whitespace, and it is neither replaced nor
  trimmed.
\<close>

theorem make_safe_filename_tab_counterexample:
  "make_safe_filename [CHR 0x09, CHR ''a''] = [CHR 0x09, CHR ''a''] @ ''.html''
   \<and> isspace (CHR 0x09) \<and> isspace (hd (make_safe_filename [CHR 0x09, CHR ''a'']))"
  by (simp add: make_safe_filename_def strip_chars_def safe_char_def isalnum_def isspace_def)

subsection \<open>What the log, the files and the semaphore of a later state hold\<close>

lemma then_do_simps [simp]:
  "then_do (Return x, s) f = f x s"
  "then_do (Raise ex, s) f = (Raise ex, s)"
  "then_do (Blocked, s) f = (Blocked, s)"
  by (simp_all add: then_do_def)

lemma extends_refl [simp]: "extends s s"
  by (simp add: extends_def)

lemma extends_trans: "extends s s1 \<Longrightarrow> extends s1 s2 \<Longrightarrow> extends s s2"
  by (auto simp: extends_def)

lemma extends_logging: "\<not> dispatch_record r \<Longrightarrow> extends s (logging r s)"
  by (simp add: extends_def logging_def gate_inv_def)

lemma extends_logging_trans:
  "\<not> dispatch_record r \<Longrightarrow> extends (logging r s) s' \<Longrightarrow> extends s s'"
  by (rule extends_trans [OF extends_logging])

lemma write_file_extends: "extends s (snd (write_file e fp c s))"
  by (auto simp: write_file_def extends_def gate_inv_def split: option.splits)

lemma extends_then_do:
  assumes "extends s (snd m)" and "\<And>x. extends (snd m) (snd (f x (snd m)))"
  shows "extends s (snd (then_do m f))"
proof (cases m)
  case (Pair r s1)
  with assms show ?thesis
    by (cases r) (auto intro: extends_trans)
qed

lemma fetch_gate:
  "0 < permits s \<Longrightarrow>
   release (close_request (open_request (acquire s))) =
     s\<lparr>clock := clock s + 1, peak := max (peak s) (in_flight s + 1)\<rparr>"
  by (simp add: release_def close_request_def open_request_def acquire_def)

lemma read_url_extends: "extends s (snd (read_url self e url s))"
proof (cases "permits s = 0")
  case True
  then show ?thesis by (simp add: read_url_def)
next
  case False
  then have p: "0 < permits s" by simp
  have g: "gate_inv cap s \<longrightarrow>
      gate_inv cap (s\<lparr>clock := clock s + 1, peak := max (peak s) (in_flight s + 1)\<rparr>)" for cap
    using p by (auto simp: gate_inv_def)
  show ?thesis
    using p g
    by (auto simp: read_url_def fetch_gate extends_def logging_def gate_inv_def Let_def
        split: outcome.splits exn.splits)
qed

lemma comment_links_extends:
  "extends s (snd (comment_links self e d cid urls n s))"
proof (induction urls arbitrary: n s)
  case Nil
  show ?case by simp
next
  case (Cons u us)
  show ?case
    unfolding comment_links.simps
  proof (rule extends_then_do [OF read_url_extends], goal_cases)
    case (1 x)
    obtain response ct status where x: "x = (response, ct, status)" by (cases x)
    let ?s1 = "snd (read_url self e u s)"
    have a: "extends ?s1
        (snd (comment_links self e d cid us n (logging (CommentLinkError status u) ?s1)))"
      by (rule extends_logging_trans [OF _ Cons.IH]) simp
    have b: "extends ?s1
        (snd (then_do (write_file e fp (the response) ?s1)
           (\<lambda>_ s2. comment_links self e d cid us (n + 1) s2)))" for fp
      by (rule extends_then_do [OF write_file_extends]) (rule Cons.IH)
    show ?case
      unfolding x using a b by simp
  qed
qed

lemma comment_rows_extends:
  "extends s (snd (comment_rows self e d cs s))"
proof (induction cs arbitrary: s)
  case Nil
  show ?case by simp
next
  case (Cons c cs)
  show ?case
    by (auto split: option.splits sum.splits
        intro!: extends_then_do comment_links_extends Cons.IH)
qed

lemma parse_comments_extends:
  "extends s (snd (parse_comments self e response item s))"
  by (auto simp: parse_comments_def Let_def split: option.splits intro: comment_rows_extends)

lemma story_tail_extends:
  "extends s1
     (snd (then_do (write_file e fp c (logging (News i n h) s1))
        (\<lambda>_ s2. then_do (parse_comments self e c' item s2) (\<lambda>_ s3. (Return v, s3)))))"
proof (rule extends_logging_trans [of "News i n h"])
  show "\<not> dispatch_record (News i n h)" by simp
  show "extends (logging (News i n h) s1)
     (snd (then_do (write_file e fp c (logging (News i n h) s1))
        (\<lambda>_ s2. then_do (parse_comments self e c' item s2) (\<lambda>_ s3. (Return v, s3)))))"
    by (rule extends_then_do [OF write_file_extends])
       (rule extends_then_do [OF parse_comments_extends], simp)
qed

lemma parse_item_extends:
  assumes "e_id item = Some i"
  shows "extends (logging (ParsingItem (item_url self i)) s) (snd (parse_item self e item s))"
proof -
  let ?s0 = "logging (ParsingItem (item_url self i)) s"
  have "extends ?s0 (snd (then_do (read_url self e (item_url self i) ?s0) f))"
    if f: "\<And>x s1. extends s1 (snd (f x s1))"
    for f :: "bytes option \<times> string option \<times> int option \<Rightarrow> state \<Rightarrow> (string \<times> string) option result \<times> state"
    by (rule extends_then_do [OF read_url_extends]) (rule f)
  then show ?thesis
    unfolding parse_item_def Let_def using assms
    apply simp
    apply (erule meta_allE, erule meta_mp)
    apply (auto split: list.splits option.splits
        intro!: extends_logging story_tail_extends)
    done
qed

lemma parse_main_page_extends: "extends s (snd (parse_main_page self e s))"
  unfolding parse_main_page_def
  by (rule extends_then_do [OF read_url_extends])
     (auto split: option.splits intro!: extends_logging)

lemma extends_filter:
  assumes "extends s s'" and "\<And>r. P r \<Longrightarrow> dispatch_record r"
  shows "filter P (log s') = filter P (log s)"
proof -
  from assms(1) obtain new where n: "log s' = log s @ new" "filter dispatch_record new = []"
    by (auto simp: extends_def)
  from n(2) have "\<forall>r\<in>set new. \<not> dispatch_record r"
    by (simp add: filter_empty_conv)
  with assms(2) have "filter P new = []"
    by (auto simp: filter_empty_conv)
  with n(1) show ?thesis by simp
qed

lemma extends_invocations: "extends s s' \<Longrightarrow> invocations self i s' = invocations self i s"
  by (simp add: invocations_def extends_filter)


lemma item_url_inj [simp]: "item_url self i = item_url self j \<longleftrightarrow> i = j"
  by (simp add: item_url_def)

lemma invocations_logging:
  "invocations self i (logging r s) =
     invocations self i s + (if r = ParsingItem (item_url self i) then 1 else 0)"
  by (simp add: invocations_def logging_def)


lemma parse_item_no_id: "e_id item = None \<Longrightarrow> parse_item self e item s = (Raise KeyError, s)"
  by (simp add: parse_item_def)

lemma parse_item_invocations:
  "e_id item = Some j \<Longrightarrow>
   invocations self i (snd (parse_item self e item s)) =
     invocations self i s + (if i = j then 1 else 0)"
proof -
  assume "e_id item = Some j"
  from extends_invocations [OF parse_item_extends [OF this]] show ?thesis
    by (simp add: invocations_logging)
qed


lemma news_step_seen:
  "e_id item = Some j \<Longrightarrow> pn j = Some t \<Longrightarrow>
   news_step self e item pn s = (Return Continue, pn, logging (AlreadyParsed j) s)"
  by (simp add: news_step_def)

lemma news_step_state:
  "e_id item = Some j \<Longrightarrow>
   snd (snd (news_step self e item pn s)) =
     (if pn j = None then snd (parse_item self e item s) else logging (AlreadyParsed j) s)"
  by (auto simp: news_step_def split: prod.splits result.splits option.splits exn.splits)

lemma news_step_no_id:
  "e_id item = None \<Longrightarrow> news_step self e item pn s = (Raise KeyError, pn, s)"
  by (simp add: news_step_def)

lemma news_step_invocations:
  "invocations self i (snd (snd (news_step self e item pn s))) =
     invocations self i s + (if e_id item = Some i \<and> pn i = None then 1 else 0)"
proof (cases "e_id item")
  case None
  then show ?thesis by (simp add: news_step_no_id)
next
  case (Some j)
  then show ?thesis
    by (cases "pn j = None")
       (auto simp: news_step_state parse_item_invocations invocations_logging)
qed


lemma news_step_seen_other:
  "pn i \<noteq> None \<or> e_id item \<noteq> Some i \<Longrightarrow> fst (snd (news_step self e item pn s)) i = pn i"
  by (auto simp: news_step_def split: prod.splits result.splits option.splits exn.splits)


lemma for_news_seen:
  "pn i \<noteq> None \<or> Some i \<notin> e_id ` set items \<Longrightarrow>
   invocations self i (snd (snd (for_news self e items pn s))) = invocations self i s
   \<and> fst (snd (for_news self e items pn s)) i = pn i"
proof (induction items arbitrary: pn s)
  case Nil
  show ?case by simp
next
  case (Cons item items)
  obtain r pn1 s1 where st: "news_step self e item pn s = (r, pn1, s1)"
    by (cases "news_step self e item pn s")
  from Cons.prems have c: "pn i \<noteq> None \<or> e_id item \<noteq> Some i" by auto
  from news_step_invocations [where self = self and i = i and e = e and item = item and pn = pn and s = s] st c
  have inv: "invocations self i s1 = invocations self i s" by auto
  from news_step_seen_other [where self = self and e = e and s = s and pn = pn and i = i and item = item] c st
  have pn1: "pn1 i = pn i" by simp
  from Cons.prems pn1 have "pn1 i \<noteq> None \<or> Some i \<notin> e_id ` set items" by auto
  with Cons.IH [of pn1 s1] inv pn1 st show ?case
    by (auto split: result.splits loop_ctl.splits)
qed


lemma for_news_append:
  "for_news self e (xs @ ys) pn s =
     (case for_news self e xs pn s of
        (Return Continue, pn1, s1) \<Rightarrow> for_news self e ys pn1 s1
      | other \<Rightarrow> other)"
  by (induction xs arbitrary: pn s)
     (auto split: prod.splits result.splits loop_ctl.splits)

lemma cycles_seen:
  "pn i \<noteq> None \<Longrightarrow>
   invocations self i (snd (snd (cycles fuel self e pn s))) = invocations self i s
   \<and> fst (snd (cycles fuel self e pn s)) i = pn i"
proof (induction fuel arbitrary: pn s)
  case 0
  show ?case by simp
next
  case (Suc fuel)
  obtain r s1 where pm: "parse_main_page self e s = (r, s1)"
    by (cases "parse_main_page self e s")
  from extends_invocations [OF parse_main_page_extends [where self = self and e = e and s = s]] pm
  have i1: "invocations self i s1 = invocations self i s" by simp
  show ?case
  proof (cases r)
    case (Return news)
    let ?items = "slice_to (top_news_count self) (the news)"
    obtain r2 pn2 s2 where fn: "for_news self e ?items pn s1 = (r2, pn2, s2)"
      by (cases "for_news self e ?items pn s1")
    from for_news_seen [of pn i ?items self e s1] Suc.prems fn
    have i2: "invocations self i s2 = invocations self i s1" and p2: "pn2 i = pn i"
      by auto
    from p2 Suc.prems have "pn2 i \<noteq> None" by simp
    with Suc.IH [of pn2] have ih:
      "invocations self i (snd (snd (cycles fuel self e pn2 t))) = invocations self i t
       \<and> fst (snd (cycles fuel self e pn2 t)) i = pn2 i" for t
      by simp
    show ?thesis
      using pm Return fn i1 i2 p2 ih
      by (auto simp: invocations_logging split: result.splits)
  next
    case (Raise x)
    with pm i1 show ?thesis by simp
  next
    case Blocked
    with pm i1 show ?thesis by simp
  qed
qed

subsection \<open>Evaluating the example\<close>

lemmas example_defs =
  example_crawler_def example_env_def example_net_def example_soup_def start_def
  story_123_def story_123_page_def story_124_def story_125_def story_126_def story_127_def
  comment_c0_def comment_c1_def comment_c2_def

lemmas crawler_defs =
  news_step_def parse_item_def parse_comments_def parse_main_page_def read_url_def
  acquire_def open_request_def close_request_def release_def
  item_url_def logging_def write_file_def falsy_def hrefs_def Let_def
  strip_def isspace_def isalnum_def make_safe_filename_def strip_chars_def safe_char_def
  Path_def truediv_def path_str_def path_name_def comment_fname_def str_nat.simps
  digit_char_def before_query_def

subsection \<open>The fetcher: timeouts and other failures\<close>

lemma read_url_timeout:
  "0 < permits s \<Longrightarrow> net e (clock s) url = Raises TimeoutError \<Longrightarrow>
   read_url self e url s =
     (Return (None, None, Some 408),
      s\<lparr>clock := clock s + 1, peak := max (peak s) (in_flight s + 1),
        log := log s @ [TimedOut url]\<rparr>)"
  by (simp add: read_url_def fetch_gate logging_def)

lemma read_url_raises:
  "0 < permits s \<Longrightarrow> net e (clock s) url = Raises x \<Longrightarrow> x \<noteq> TimeoutError \<Longrightarrow>
   read_url self e url s =
     (Raise x, s\<lparr>clock := clock s + 1, peak := max (peak s) (in_flight s + 1)\<rparr>)"
  by (cases x) (simp_all add: read_url_def fetch_gate)

lemma read_url_response:
  "0 < permits s \<Longrightarrow> net e (clock s) url = Response body ctype code \<Longrightarrow>
   read_url self e url s =
     (Return (Some body, Some ctype, Some code),
      s\<lparr>clock := clock s + 1, peak := max (peak s) (in_flight s + 1),
        log := log s @ [ReadURL url (Some code) (length body)]\<rparr>)"
  by (simp add: read_url_def fetch_gate logging_def)

text \<open>
  C3, as the code has it. \<^verbatim>\<open>read_url\<close> has one handler, \<^verbatim>\<open>except TimeoutError\<close>. Any
  other exception that the GET raises (a connection error, a protocol error) leaves
  \<^verbatim>\<open>read_url\<close> as it is, after the one request, with no status and no payload returned;
  only a timeout becomes status 408 with an empty payload. \<^verbatim>\<open>parse_item\<close> and the link
  loop of \<^verbatim>\<open>parse_comments\<close> have no handler either, so the exception goes on to their
  caller.
\<close>

theorem read_url_passes_other_exceptions:
  "0 < permits s \<Longrightarrow> x \<noteq> TimeoutError \<Longrightarrow>
   (net e (clock s) url = Raises x \<longrightarrow>
      read_url self e url s =
        (Raise x, s\<lparr>clock := clock s + 1, peak := max (peak s) (in_flight s + 1)\<rparr>))
   \<and> (net e (clock s) slow_url = Raises TimeoutError \<longrightarrow>
      read_url self e slow_url s =
        (Return (None, None, Some 408),
         s\<lparr>clock := clock s + 1, peak := max (peak s) (in_flight s + 1),
           log := log s @ [TimedOut slow_url]\<rparr>))
   \<and> (e_id item = Some i \<longrightarrow> net e (clock s) (item_url self i) = Raises x \<longrightarrow>
      fst (parse_item self e item s) = Raise x)
   \<and> (net e (clock s) comm_url = Raises x \<longrightarrow>
      fst (comment_links self e comm_index_dir comm_id (comm_url # comm_urls) link_num s) = Raise x)"
proof -
  assume sem: "0 < permits s" and x: "x \<noteq> TimeoutError"
  have escapes: "read_url self e u t =
      (Raise x, t\<lparr>clock := clock t + 1, peak := max (peak t) (in_flight t + 1)\<rparr>)"
    if "net e (clock t) u = Raises x" "0 < permits t" for u t
    using that(2,1) x by (rule read_url_raises)
  have caught: "net e (clock s) slow_url = Raises TimeoutError \<longrightarrow>
      read_url self e slow_url s =
        (Return (None, None, Some 408),
         s\<lparr>clock := clock s + 1, peak := max (peak s) (in_flight s + 1),
           log := log s @ [TimedOut slow_url]\<rparr>)"
    using sem by (simp add: read_url_timeout)
  have story: "e_id item = Some i \<longrightarrow> net e (clock s) (item_url self i) = Raises x \<longrightarrow>
      fst (parse_item self e item s) = Raise x"
    using escapes [of "logging (ParsingItem (item_url self i)) s" "item_url self i"] sem
    by (simp add: parse_item_def logging_def)
  have link: "net e (clock s) comm_url = Raises x \<longrightarrow>
      fst (comment_links self e comm_index_dir comm_id (comm_url # comm_urls) link_num s) = Raise x"
    using escapes [of s comm_url] sem by simp
  from escapes [of s url] sem caught story link show ?thesis
    by (intro conjI impI) simp_all
qed

text \<open>The example: an unreachable host, a slow host, and story 127, whose page is unreachable.\<close>

theorem read_url_passes_other_exceptions_witness:
  "read_url example_crawler example_env ''http://x/gone'' start
     = (Raise ClientError,
        start\<lparr>clock := clock start + 1, peak := max (peak start) (in_flight start + 1)\<rparr>)
   \<and> read_url example_crawler example_env ''http://x/dead'' start =
        (Return (None, None, Some 408),
         start\<lparr>clock := clock start + 1, peak := max (peak start) (in_flight start + 1),
           log := log start @ [TimedOut ''http://x/dead'']\<rparr>)
   \<and> fst (parse_item example_crawler example_env story_127 start) = Raise ClientError
   \<and> fst (comment_links example_crawler example_env (Path ''web/123/comments'') ''c1''
        [''http://x/gone'', ''http://x/b''] 0 start) = Raise ClientError"
proof -
  have sem: "0 < permits start" and x: "ClientError \<noteq> TimeoutError"
    by (simp_all add: example_defs)
  have gone: "net example_env (clock start) ''http://x/gone'' = Raises ClientError"
    and dead: "net example_env (clock start) ''http://x/dead'' = Raises TimeoutError"
    and id: "e_id story_127 = Some ''127''"
    and story: "net example_env (clock start) (item_url example_crawler ''127'') = Raises ClientError"
    by (simp_all add: example_defs item_url_def)
  note t = read_url_passes_other_exceptions [OF sem x, where e = example_env
      and self = example_crawler and url = "''http://x/gone''" and slow_url = "''http://x/dead''"
      and item = story_127 and i = "''127''" and comm_url = "''http://x/gone''"
      and comm_index_dir = "Path ''web/123/comments''" and comm_id = "''c1''"
      and comm_urls = "[''http://x/b'']" and link_num = 0]
  from t [THEN conjunct1, rule_format, OF gone]
    t [THEN conjunct2, THEN conjunct1, rule_format, OF dead]
    t [THEN conjunct2, THEN conjunct2, THEN conjunct1, rule_format, OF id story]
    t [THEN conjunct2, THEN conjunct2, THEN conjunct2, rule_format, OF gone]
  show ?thesis by (intro conjI)
qed

text \<open>
  C3 as stated fails: for the unreachable host, \<^verbatim>\<open>read_url\<close> raises the connection
  error instead of returning a status and an empty payload.
\<close>

theorem read_url_client_error_counterexample:
  "read_url example_crawler example_env ''http://x/gone'' start
     = (Raise ClientError, start\<lparr>clock := 1, peak := 1\<rparr>)"
  by (simp add: example_defs read_url_def fetch_gate)

text \<open>
  C4. When the GET times out, \<^verbatim>\<open>read_url\<close> returns status 408 with no payload, after
  exactly one request (the clock advances by one: no retry). \<^verbatim>\<open>parse_item\<close> then
  returns \<^verbatim>\<open>None\<close> without raising and writes no file; the link loop of
  \<^verbatim>\<open>parse_comments\<close> logs the error and goes on with the next link, with the same
  \<^verbatim>\<open>link_num\<close> and no file written. The five seconds are the session's
  \<^verbatim>\<open>ClientTimeout(total=5)\<close>; in the embedding a request that exceeds them is the
  outcome \<open>Raises TimeoutError\<close>.
\<close>

theorem timeout_is_skipped:
  "0 < permits s \<Longrightarrow>
   (net e (clock s) url = Raises TimeoutError \<longrightarrow>
      read_url self e url s =
        (Return (None, None, Some 408),
         s\<lparr>clock := clock s + 1, peak := max (peak s) (in_flight s + 1),
           log := log s @ [TimedOut url]\<rparr>))
   \<and> (e_id item = Some i \<longrightarrow> net e (clock s) (item_url self i) = Raises TimeoutError \<longrightarrow>
      parse_item self e item s =
        (Return None,
         s\<lparr>clock := clock s + 1, peak := max (peak s) (in_flight s + 1),
           log := log s @ [ParsingItem (item_url self i), TimedOut (item_url self i),
                           NoResponse (item_url self i) (Some 408)]\<rparr>))
   \<and> (net e (clock s) comm_url = Raises TimeoutError \<longrightarrow>
      comment_links self e comm_index_dir comm_id (comm_url # comm_urls) link_num s =
        comment_links self e comm_index_dir comm_id comm_urls link_num
          (s\<lparr>clock := clock s + 1, peak := max (peak s) (in_flight s + 1),
             log := log s @ [TimedOut comm_url, CommentLinkError (Some 408) comm_url]\<rparr>))"
proof -
  assume sem: "0 < permits s"
  have sentinel: "read_url self e u t =
      (Return (None, None, Some 408),
       t\<lparr>clock := clock t + 1, peak := max (peak t) (in_flight t + 1),
         log := log t @ [TimedOut u]\<rparr>)"
    if "net e (clock t) u = Raises TimeoutError" "0 < permits t" for u t
    using that(2,1) by (rule read_url_timeout)
  have story: "e_id item = Some i \<longrightarrow> net e (clock s) (item_url self i) = Raises TimeoutError \<longrightarrow>
      parse_item self e item s =
        (Return None,
         s\<lparr>clock := clock s + 1, peak := max (peak s) (in_flight s + 1),
           log := log s @ [ParsingItem (item_url self i), TimedOut (item_url self i),
                           NoResponse (item_url self i) (Some 408)]\<rparr>)"
    using sentinel [of "logging (ParsingItem (item_url self i)) s" "item_url self i"] sem
    by (simp add: parse_item_def logging_def falsy_def Let_def)
  have link: "net e (clock s) comm_url = Raises TimeoutError \<longrightarrow>
      comment_links self e comm_index_dir comm_id (comm_url # comm_urls) link_num s =
        comment_links self e comm_index_dir comm_id comm_urls link_num
          (s\<lparr>clock := clock s + 1, peak := max (peak s) (in_flight s + 1),
             log := log s @ [TimedOut comm_url, CommentLinkError (Some 408) comm_url]\<rparr>)"
    using sentinel [of s comm_url] sem by (simp add: logging_def falsy_def)
  from sentinel [of s url] sem story link show ?thesis
    by (intro conjI impI) simp_all
qed

text \<open>The example: the slow host, as a URL and as a comment link, and story 124.\<close>

theorem timeout_is_skipped_witness:
  "read_url example_crawler example_env ''http://x/dead'' start =
     (Return (None, None, Some 408),
      start\<lparr>clock := clock start + 1, peak := max (peak start) (in_flight start + 1),
        log := log start @ [TimedOut ''http://x/dead'']\<rparr>)
   \<and> parse_item example_crawler example_env story_124 start =
        (Return None,
         start\<lparr>clock := clock start + 1, peak := max (peak start) (in_flight start + 1),
           log := log start @
             [ParsingItem (item_url example_crawler ''124''),
              TimedOut (item_url example_crawler ''124''),
              NoResponse (item_url example_crawler ''124'') (Some 408)]\<rparr>)
   \<and> comment_links example_crawler example_env (Path ''web/123/comments'') ''c1''
        [''http://x/dead'', ''http://x/b''] 0 start =
      comment_links example_crawler example_env (Path ''web/123/comments'') ''c1''
        [''http://x/b''] 0
        (start\<lparr>clock := clock start + 1, peak := max (peak start) (in_flight start + 1),
           log := log start @
             [TimedOut ''http://x/dead'', CommentLinkError (Some 408) ''http://x/dead'']\<rparr>)"
proof -
  have sem: "0 < permits start"
    by (simp add: example_defs)
  have dead: "net example_env (clock start) ''http://x/dead'' = Raises TimeoutError"
    by (simp add: example_defs)
  have id: "e_id story_124 = Some ''124''"
    by (simp add: example_defs)
  have story: "net example_env (clock start) (item_url example_crawler ''124'') = Raises TimeoutError"
    by (simp add: example_defs item_url_def)
  note t = timeout_is_skipped [OF sem, where e = example_env and self = example_crawler
      and url = "''http://x/dead''" and item = story_124 and i = "''124''"
      and comm_url = "''http://x/dead''" and comm_index_dir = "Path ''web/123/comments''"
      and comm_id = "''c1''" and comm_urls = "[''http://x/b'']" and link_num = 0]
  from t [THEN conjunct1, rule_format, OF dead]
    t [THEN conjunct2, THEN conjunct1, rule_format, OF id story]
    t [THEN conjunct2, THEN conjunct2, rule_format, OF dead]
  show ?thesis by (intro conjI)
qed

subsection \<open>The names of the archived comment links\<close>

lemma read_url_files: "files (snd (read_url self e url s)) = files s"
  by (auto simp: read_url_def logging_def Let_def acquire_def open_request_def
      close_request_def release_def split: outcome.splits exn.splits)

lemma then_do_Return:
  "then_do m f = (Return y, s') \<Longrightarrow> \<exists>x s1. m = (Return x, s1) \<and> f x s1 = (Return y, s')"
  by (cases m) (auto simp: then_do_def split: result.splits)

lemma then_do_state_only:
  "snd (then_do m (\<lambda>x s2. (g x, s2))) = snd m"
  by (cases m) (auto simp: then_do_def split: result.splits)

lemma archived_as_Nil [simp]: "archived_as d cid n [] = []"
  by (simp add: archived_as_def)

lemma archived_as_Cons:
  "archived_as d cid n ((u, ct, body) # links) =
     (path_str (truediv d (comment_fname cid n ct u)), body) # archived_as d cid (n + 1) links"
  by (simp add: archived_as_def enumerate_Suc_eq [of 0] o_def split_def apfst_def map_prod_def)

lemma length_archived_as: "length (archived_as d cid n links) = length links"
  by (simp add: archived_as_def)

lemma comment_links_files:
  "\<exists>links. files (snd (comment_links self e d cid urls n s)) = files s @ archived_as d cid n links
     \<and> subseq (map fst links) urls"
proof (induction urls arbitrary: n s)
  case Nil
  have "files s = files s @ archived_as d cid n [] \<and> subseq (map fst []) ([] :: string list)"
    by simp
  then show ?case by (auto intro: exI [of _ "[]"])
next
  case (Cons u us)
  obtain r s1 where ru: "read_url self e u s = (r, s1)"
    by (cases "read_url self e u s")
  with read_url_files [of self e u s] have f1: "files s1 = files s" by simp
  have none: "\<exists>links. files s = files s @ archived_as d cid n links
      \<and> subseq (map fst links) (u # us)"
    by (auto intro: exI [of _ "[]"])
  show ?case
  proof (cases r)
    case (Return x)
    obtain response ct status where x: "x = (response, ct, status)" by (cases x)
    show ?thesis
    proof (cases "falsy response \<or> status \<noteq> Some 200")
      case True
      let ?s2 = "logging (CommentLinkError status u) s1"
      from Cons.IH [of n ?s2] obtain links where
        l: "files (snd (comment_links self e d cid us n ?s2)) = files ?s2 @ archived_as d cid n links"
           "subseq (map fst links) us"
        by (elim exE conjE)
      have "files ?s2 = files s" using f1 by (simp add: logging_def)
      with l ru Return x True
      have "files (snd (comment_links self e d cid (u # us) n s)) = files s @ archived_as d cid n links
          \<and> subseq (map fst links) (u # us)"
        by auto
      then show ?thesis by (rule exI)
    next
      case False
      let ?fp = "truediv d (comment_fname cid n ct u)"
      show ?thesis
      proof (cases "disk e s1 (path_str ?fp)")
        case None
        let ?s2 = "s1\<lparr>files := files s1 @ [(path_str ?fp, the response)]\<rparr>"
        from None have w: "write_file e ?fp (the response) s1 = (Return (), ?s2)"
          by (simp add: write_file_def)
        from Cons.IH [of "n + 1" ?s2] obtain links where
          l: "files (snd (comment_links self e d cid us (n + 1) ?s2)) =
                files ?s2 @ archived_as d cid (n + 1) links"
             "subseq (map fst links) us"
          by (elim exE conjE)
        have "files ?s2 = files s @ [(path_str ?fp, the response)]" using f1 by simp
        with l ru Return x False w
        have "files (snd (comment_links self e d cid (u # us) n s)) =
                files s @ archived_as d cid n ((u, ct, the response) # links)
            \<and> subseq (map fst ((u, ct, the response) # links)) (u # us)"
          by (auto simp: archived_as_Cons)
        then show ?thesis by (rule exI)
      next
        case (Some z)
        then have "write_file e ?fp (the response) s1 = (Raise z, s1)"
          by (simp add: write_file_def)
        with ru Return x False f1
        have "files (snd (comment_links self e d cid (u # us) n s)) = files s"
          by simp
        with none show ?thesis by simp
      qed
    qed
  next
    case (Raise z)
    with ru f1 have "files (snd (comment_links self e d cid (u # us) n s)) = files s"
      by simp
    with none show ?thesis by simp
  next
    case Blocked
    with ru f1 have "files (snd (comment_links self e d cid (u # us) n s)) = files s"
      by simp
    with none show ?thesis by simp
  qed
qed

lemma comment_rows_append:
  "comment_rows self e d (xs @ ys) s =
     then_do (comment_rows self e d xs s) (\<lambda>_ s1. comment_rows self e d ys s1)"
proof (induction xs arbitrary: s)
  case Nil
  show ?case by simp
next
  case (Cons c cs)
  show ?case
  proof (cases "c_id c")
    case None
    then show ?thesis by simp
  next
    case (Some cid)
    show ?thesis
    proof (cases "hrefs (case commtext c of None \<Rightarrow> [] | Some anchors \<Rightarrow> anchors)")
      case (Inl x)
      with Some show ?thesis by simp
    next
      case (Inr urls)
      obtain r s1 where cl: "comment_links self e d cid urls 0 s = (r, s1)"
        by (cases "comment_links self e d cid urls 0 s")
      with Some Inr Cons.IH show ?thesis
        by (cases r) simp_all
    qed
  qed
qed

lemma comment_rows_last:
  assumes "c_id c = Some cid"
    and "hrefs (case commtext c of None \<Rightarrow> [] | Some anchors \<Rightarrow> anchors) = Inr urls"
    and "comment_rows self e d earlier s = (Return (), s1)"
  shows "snd (comment_rows self e d (earlier @ [c]) s) = snd (comment_links self e d cid urls 0 s1)"
proof -
  have "comment_rows self e d (earlier @ [c]) s = comment_rows self e d [c] s1"
    using assms(3) by (simp add: comment_rows_append)
  moreover have "snd (comment_rows self e d [c] s1) = snd (comment_links self e d cid urls 0 s1)"
  proof (cases "comment_links self e d cid urls 0 s1")
    case (Pair r s2)
    with assms(1,2) show ?thesis by (cases r) simp_all
  qed
  ultimately show ?thesis by simp
qed

text \<open>
  C5, as the code has it. For each comment row the loop reads \<^verbatim>\<open>comment['id']\<close> and
  starts \<^verbatim>\<open>link_num\<close> at 0; \<^verbatim>\<open>link_num\<close> is incremented only after a link has been
  written, and \<^verbatim>\<open>continue\<close> skips the increment. So the files written for a comment,
  whatever came before it on the page, are those of a subsequence of its links, in
  document order, under the ordinals 0, 1, 2, ... in that order: the ordinal of a link
  is the number of links of the same comment archived before it. It is the
  document-order index when every link of the comment is archived. A link that answers
  is written when its payload is not empty and its status is 200, and only when the
  write has succeeded does the counter move. The links are fetched one at a time, so
  there is no completion order to depend on.
\<close>

theorem comment_link_ordinals:
  "c_id c = Some comm_id \<Longrightarrow>
   hrefs (case commtext c of None \<Rightarrow> [] | Some anchors \<Rightarrow> anchors) = Inr comm_urls \<Longrightarrow>
   comment_rows self e comm_index_dir earlier s = (Return (), s1) \<Longrightarrow>
   (\<exists>links.
      files (snd (comment_rows self e comm_index_dir (earlier @ [c]) s)) =
        files s1 @
          map (\<lambda>(k, comm_url, content_type, body).
                 (path_str
                    (truediv comm_index_dir (comment_fname comm_id k content_type comm_url)),
                  body))
            (enumerate 0 links)
      \<and> subseq (map fst links) comm_urls
      \<and> (length links = length comm_urls \<longrightarrow> map fst links = comm_urls))
   \<and> (0 < permits t \<longrightarrow> net e (clock t) url = Response body ctype code \<longrightarrow>
        comment_links self e comm_index_dir comm_id (url # urls) link_num t =
          (if body = [] \<or> code \<noteq> 200
           then comment_links self e comm_index_dir comm_id urls link_num
                  (t\<lparr>clock := clock t + 1, peak := max (peak t) (in_flight t + 1),
                     log := log t @ [ReadURL url (Some code) (length body),
                                     CommentLinkError (Some code) url]\<rparr>)
           else then_do
                  (write_file e
                     (truediv comm_index_dir (comment_fname comm_id link_num (Some ctype) url))
                     body
                     (t\<lparr>clock := clock t + 1, peak := max (peak t) (in_flight t + 1),
                        log := log t @ [ReadURL url (Some code) (length body)]\<rparr>))
                  (\<lambda>_ t2. comment_links self e comm_index_dir comm_id urls (link_num + 1) t2)))"
proof
  assume h: "c_id c = Some comm_id"
    "hrefs (case commtext c of None \<Rightarrow> [] | Some anchors \<Rightarrow> anchors) = Inr comm_urls"
    "comment_rows self e comm_index_dir earlier s = (Return (), s1)"
  obtain links where
    l: "files (snd (comment_links self e comm_index_dir comm_id comm_urls 0 s1)) =
          files s1 @ archived_as comm_index_dir comm_id 0 links"
       "subseq (map fst links) comm_urls"
    using comment_links_files by blast
  have "length links = length comm_urls \<longrightarrow> map fst links = comm_urls"
    using l(2) subseq_same_length [of "map fst links" comm_urls] by simp
  with l comment_rows_last [OF h]
  show "\<exists>links.
      files (snd (comment_rows self e comm_index_dir (earlier @ [c]) s)) =
        files s1 @
          map (\<lambda>(k, comm_url, content_type, body).
                 (path_str
                    (truediv comm_index_dir (comment_fname comm_id k content_type comm_url)),
                  body))
            (enumerate 0 links)
      \<and> subseq (map fst links) comm_urls
      \<and> (length links = length comm_urls \<longrightarrow> map fst links = comm_urls)"
    by (intro exI [of _ links]) (simp add: archived_as_def)
next
  show "0 < permits t \<longrightarrow> net e (clock t) url = Response body ctype code \<longrightarrow>
        comment_links self e comm_index_dir comm_id (url # urls) link_num t =
          (if body = [] \<or> code \<noteq> 200
           then comment_links self e comm_index_dir comm_id urls link_num
                  (t\<lparr>clock := clock t + 1, peak := max (peak t) (in_flight t + 1),
                     log := log t @ [ReadURL url (Some code) (length body),
                                     CommentLinkError (Some code) url]\<rparr>)
           else then_do
                  (write_file e
                     (truediv comm_index_dir (comment_fname comm_id link_num (Some ctype) url))
                     body
                     (t\<lparr>clock := clock t + 1, peak := max (peak t) (in_flight t + 1),
                        log := log t @ [ReadURL url (Some code) (length body)]\<rparr>))
                  (\<lambda>_ t2. comment_links self e comm_index_dir comm_id urls (link_num + 1) t2))"
    by (simp add: read_url_response falsy_def logging_def)
qed

text \<open>The example: comment \<open>c2\<close>, after comment \<open>c0\<close>.\<close>

lemma example_comment_rows:
  "files (snd (comment_rows example_crawler example_env (Path ''web/123/comments'')
     ([comment_c0] @ [comment_c2]) start)) =
   [(''web/123/comments/c2_0.html'', ''<b>''), (''web/123/comments/c2_1.html'', ''<b>'')]"
  by (simp add: example_defs crawler_defs)

theorem comment_link_ordinals_witness:
  "(\<exists>links.
      [(''web/123/comments/c2_0.html'', ''<b>''), (''web/123/comments/c2_1.html'', ''<b>'')] =
        map (\<lambda>(k, comm_url, content_type, body).
               (path_str
                  (truediv (Path ''web/123/comments'') (comment_fname ''c2'' k content_type comm_url)),
                body))
          (enumerate 0 links)
      \<and> map fst links = [''http://x/b'', ''http://x/b''])
   \<and> comment_links example_crawler example_env (Path ''web/123/comments'') ''c2''
        [''http://x/b'', ''http://x/b''] 0 start =
      then_do
        (write_file example_env
           (truediv (Path ''web/123/comments'')
              (comment_fname ''c2'' 0 (Some ''text/html'') ''http://x/b''))
           ''<b>''
           (start\<lparr>clock := clock start + 1, peak := max (peak start) (in_flight start + 1),
              log := log start @ [ReadURL ''http://x/b'' (Some 200) (length ''<b>'')]\<rparr>))
        (\<lambda>_ t2. comment_links example_crawler example_env (Path ''web/123/comments'') ''c2''
           [''http://x/b''] (0 + 1) t2)"
proof -
  let ?urls = "[''http://x/b'', ''http://x/b'']"
  let ?written =
    "[(''web/123/comments/c2_0.html'', ''<b>''), (''web/123/comments/c2_1.html'', ''<b>'')]"
  let ?named = "\<lambda>(k, comm_url, content_type, body).
      (path_str (truediv (Path ''web/123/comments'') (comment_fname ''c2'' k content_type comm_url)),
       body :: bytes)"
  have h: "c_id comment_c2 = Some ''c2''"
    "hrefs (case commtext comment_c2 of None \<Rightarrow> [] | Some anchors \<Rightarrow> anchors) = Inr ?urls"
    "comment_rows example_crawler example_env (Path ''web/123/comments'') [comment_c0] start
       = (Return (), start)"
    by (simp_all add: example_defs hrefs_def)
  have sem: "0 < permits start"
    and b: "net example_env (clock start) ''http://x/b'' = Response ''<b>'' ''text/html'' 200"
    by (simp_all add: example_defs)
  have ok: "\<not> (''<b>'' = [] \<or> (200 :: int) \<noteq> 200)"
    by simp
  note t = comment_link_ordinals [OF h, where t = start and url = "''http://x/b''"
      and body = "''<b>''" and ctype = "''text/html''" and code = 200
      and urls = "[''http://x/b'']" and link_num = 0]
  from t [THEN conjunct2, rule_format, OF sem b]
  have st: "comment_links example_crawler example_env (Path ''web/123/comments'') ''c2''
        ?urls 0 start =
      then_do
        (write_file example_env
           (truediv (Path ''web/123/comments'')
              (comment_fname ''c2'' 0 (Some ''text/html'') ''http://x/b''))
           ''<b>''
           (start\<lparr>clock := clock start + 1, peak := max (peak start) (in_flight start + 1),
              log := log start @ [ReadURL ''http://x/b'' (Some 200) (length ''<b>'')]\<rparr>))
        (\<lambda>_ t2. comment_links example_crawler example_env (Path ''web/123/comments'') ''c2''
           [''http://x/b''] (0 + 1) t2)"
    by (simp only: ok if_False)
  from t [THEN conjunct1]
  obtain links where l:
    "files (snd (comment_rows example_crawler example_env (Path ''web/123/comments'')
        ([comment_c0] @ [comment_c2]) start)) = files start @ map ?named (enumerate 0 links)"
    "length links = length ?urls \<longrightarrow> map fst links = ?urls"
    by (elim exE conjE)
  have g: "files start = []"
    by (simp add: start_def)
  from l(1) have w: "?written = map ?named (enumerate 0 links)"
    by (simp only: example_comment_rows g append_Nil)
  have "length links = length (map ?named (enumerate 0 links))"
    by simp
  also have "\<dots> = length ?written"
    by (simp only: w)
  finally have n: "length links = 2"
    by simp
  from l(2) n have u: "map fst links = ?urls"
    by simp
  from w u st show ?thesis
    by (intro conjI exI [of _ links])
qed

text \<open>
  C5 as stated fails: on the page of story 123 the first link of comment \<open>c1\<close> times
  out, and its second link, whose document-order index is 1, is archived under
  ordinal 0.
\<close>

lemma example_parse_comments_123:
  "files (snd (parse_comments example_crawler example_env ''<item 123>'' story_123 start)) =
     [(''web/123/comments/c1_0.html'', ''<b>'')]"
  by (simp add: example_defs crawler_defs)

theorem comment_link_ordinal_counterexample:
  "files (snd (parse_comments example_crawler example_env ''<item 123>'' story_123 start)) =
     [(''web/123/comments/c1_0.html'', ''<b>'')]
   \<and> map commtext (the (comment_tree (the (soup example_env ''<item 123>'')))) =
       [Some [Some ''http://x/dead'', Some ''http://x/b'']]
   \<and> [''http://x/dead'', ''http://x/b''] ! 1 = ''http://x/b''
   \<and> path_str (truediv (Path ''web/123/comments'')
         (comment_fname ''c1'' 1 (Some ''text/html'') ''http://x/b''))
       = ''web/123/comments/c1_1.html''"
proof -
  have b: "map commtext (the (comment_tree (the (soup example_env ''<item 123>'')))) =
       [Some [Some ''http://x/dead'', Some ''http://x/b'']]"
    by (simp add: example_defs)
  have c: "[''http://x/dead'', ''http://x/b''] ! 1 = ''http://x/b''"
    by simp
  have d: "path_str (truediv (Path ''web/123/comments'')
         (comment_fname ''c1'' 1 (Some ''text/html'') ''http://x/b''))
       = ''web/123/comments/c1_1.html''"
    by (simp add: Path_def truediv_def path_str_def comment_fname_def str_nat.simps
        digit_char_def Let_def)
  from example_parse_comments_123 b c d show ?thesis by (intro conjI)
qed

subsection \<open>The story processor\<close>

text \<open>
  C8, as the code has it. When \<^verbatim>\<open>parse_item\<close> returns a pair, its title is the stripped
  text of the first anchor of the first \<^verbatim>\<open>titleline\<close> tag of the front-page entry it
  was given (the detail page is parsed for comments only), and its URL is the URL of the
  detail page it has fetched, \<^verbatim>\<open><site>/item?id=<id>\<close>; the \<^verbatim>\<open>href\<close> of that anchor is
  read and logged, not returned. This pair is what the loop stores in \<^verbatim>\<open>parsed_news\<close>
  under the story's identifier.
\<close>

theorem parse_item_returns:
  "parse_item self e item s = (Return (Some t), s') \<Longrightarrow>
   \<exists>i a rest href.
     e_id item = Some i \<and> titlelines item = Some a # rest \<and> a_href a = Some href
     \<and> t = (strip (a_text a), site self @ ''/item?id='' @ i)
     \<and> (parsed_news i = None \<longrightarrow>
          news_step self e item parsed_news s = (Return Continue, parsed_news(i \<mapsto> t), s'))"
proof -
  assume p: "parse_item self e item s = (Return (Some t), s')"
  then obtain i where i: "e_id item = Some i"
    by (cases "e_id item") (auto simp: parse_item_no_id)
  let ?url = "item_url self i"
  from p i obtain x s1 where
    ru: "read_url self e ?url (logging (ParsingItem ?url) s) = (Return x, s1)"
    and rest: "(case x of (response, _, status) \<Rightarrow> \<lambda>s1.
        if falsy response then (Return None, logging (NoResponse ?url status) s1)
        else (case titlelines item of
                [] \<Rightarrow> (Raise IndexError, s1)
              | None # _ \<Rightarrow> (Raise AttributeError, s1)
              | Some a # _ \<Rightarrow>
                  (case a_href a of
                     None \<Rightarrow> (Raise KeyError, s1)
                   | Some href \<Rightarrow>
                       then_do
                         (write_file e
                            (truediv (truediv (Path (root self)) i)
                               (make_safe_filename (strip (a_text a))))
                            (the response) (logging (News i (strip (a_text a)) href) s1))
                         (\<lambda>_ s2.
                            then_do (parse_comments self e (the response) item s2)
                              (\<lambda>_ s3. (Return (Some (strip (a_text a), ?url)), s3)))))) s1
      = (Return (Some t), s')"
    unfolding parse_item_def Let_def by (auto dest!: then_do_Return)
  obtain response ct status where x: "x = (response, ct, status)" by (cases x)
  from rest x obtain a tls href where
    tl: "titlelines item = Some a # tls" "a_href a = Some href"
      "t = (strip (a_text a), ?url)"
    by (auto split: if_splits list.splits option.splits dest!: then_do_Return)
  have "parsed_news i = None \<longrightarrow>
      news_step self e item parsed_news s = (Return Continue, parsed_news(i \<mapsto> t), s')"
    using p i by (simp add: news_step_def)
  with i tl show ?thesis
    by (simp add: item_url_def)
qed

text \<open>The example: story 123 is stored under its identifier.\<close>

lemma example_parse_item_123:
  "parse_item example_crawler example_env story_123 start =
   (Return (Some (''Hello World'', ''https://news.ycombinator.com/item?id=123'')),
    \<lparr>clock = 3,
     files = [(''web/123/Hello World.html'', ''<item 123>''),
              (''web/123/comments/c1_0.html'', ''<b>'')],
     log = [ParsingItem ''https://news.ycombinator.com/item?id=123'',
            ReadURL ''https://news.ycombinator.com/item?id=123'' (Some 200) 10,
            News ''123'' ''Hello World'' ''http://x/a'',
            TimedOut ''http://x/dead'', CommentLinkError (Some 408) ''http://x/dead'',
            ReadURL ''http://x/b'' (Some 200) 3],
     permits = 10, in_flight = 0, peak = 1\<rparr>)"
  by (simp add: example_defs crawler_defs)

theorem parse_item_returns_witness:
  "news_step example_crawler example_env story_123 Map.empty start =
     (Return Continue,
      [''123'' \<mapsto> (''Hello World'', ''https://news.ycombinator.com/item?id=123'')],
      snd (parse_item example_crawler example_env story_123 start))"
proof -
  let ?t = "(''Hello World'', ''https://news.ycombinator.com/item?id=123'')"
  let ?s' = "snd (parse_item example_crawler example_env story_123 start)"
  have "parse_item example_crawler example_env story_123 start = (Return (Some ?t), ?s')"
    by (simp only: example_parse_item_123 snd_conv)
  from parse_item_returns [OF this, of Map.empty] show ?thesis
  proof (elim exE conjE)
    fix i
    assume i: "e_id story_123 = Some i"
      and n: "Map.empty i = None \<longrightarrow>
        news_step example_crawler example_env story_123 Map.empty start
          = (Return Continue, Map.empty(i \<mapsto> ?t), ?s')"
    from i have "i = ''123''"
      by (simp add: story_123_def)
    with n show ?thesis by simp
  qed
qed

text \<open>
  C8 as stated fails: the detail page of story 123 shows the title \<^verbatim>\<open>Hello World!\<close> and
  the link \<^verbatim>\<open>http://x/a\<close> in its first title line; the pair returned has the title of
  the front-page entry and the URL of the detail page.
\<close>

theorem parse_item_returns_counterexample:
  "fst (parse_item example_crawler example_env story_123 start) =
     Return (Some (''Hello World'', ''https://news.ycombinator.com/item?id=123''))
   \<and> map titlelines (athings (the (soup example_env ''<item 123>''))) =
       [[Some \<lparr>a_text = ''Hello World!'', a_href = Some ''http://x/a''\<rparr>]]
   \<and> ''Hello World'' \<noteq> ''Hello World!''
   \<and> ''https://news.ycombinator.com/item?id=123'' \<noteq> ''http://x/a''"
proof -
  have a: "fst (parse_item example_crawler example_env story_123 start) =
     Return (Some (''Hello World'', ''https://news.ycombinator.com/item?id=123''))"
    by (simp only: example_parse_item_123 fst_conv)
  have b: "map titlelines (athings (the (soup example_env ''<item 123>''))) =
       [[Some \<lparr>a_text = ''Hello World!'', a_href = Some ''http://x/a''\<rparr>]]"
    by (simp add: example_defs)
  from a b show ?thesis by simp
qed

lemma parse_item_payload:
  assumes "0 < permits s" and "e_id item = Some i"
    and "net e (clock s) (item_url self i) = Response body ctype code" and "body \<noteq> []"
    and "titlelines item = Some a # tls" and "a_href a = Some href"
  shows "parse_item self e item s =
     then_do
       (write_file e
          (truediv (truediv (Path (root self)) i) (make_safe_filename (strip (a_text a)))) body
          (s\<lparr>clock := clock s + 1, peak := max (peak s) (in_flight s + 1),
             log := log s @
               [ParsingItem (item_url self i),
                ReadURL (item_url self i) (Some code) (length body),
                News i (strip (a_text a)) href]\<rparr>))
       (\<lambda>_ s2.
          then_do (parse_comments self e body item s2)
            (\<lambda>_ s3. (Return (Some (strip (a_text a), item_url self i)), s3)))"
proof -
  have "read_url self e (item_url self i) (logging (ParsingItem (item_url self i)) s) =
      (Return (Some body, Some ctype, Some code),
       s\<lparr>log := log s @ [ParsingItem (item_url self i)], clock := clock s + 1,
         peak := max (peak s) (in_flight s + 1),
         log := log s @ [ParsingItem (item_url self i),
                         ReadURL (item_url self i) (Some code) (length body)]\<rparr>)"
    using assms(1,3) by (simp add: read_url_def fetch_gate logging_def)
  with assms(2,4,5,6) show ?thesis
    by (simp add: parse_item_def Let_def falsy_def logging_def)
qed

text \<open>
  C9, as the code has it. \<^verbatim>\<open>parse_item\<close> tests the payload for emptiness and never
  looks at the status. When the detail page comes with a non-empty payload and any
  status, and the front-page entry yields a title and an \<^verbatim>\<open>href\<close>, the payload is
  written to \<^verbatim>\<open>Path(root) / id / <sanitized title>\<close> before the comments are
  processed. If the write raises, the exception leaves \<^verbatim>\<open>parse_item\<close>. If it succeeds,
  the file is there whatever happens next, and the story is returned, and inserted into
  \<^verbatim>\<open>parsed_news\<close>, when \<^verbatim>\<open>parse_comments\<close> returns on that payload.
\<close>

theorem story_archived_whatever_status:
  "0 < permits s \<Longrightarrow> e_id item = Some i \<Longrightarrow>
   net e (clock s) (item_url self i) = Response body ctype code \<Longrightarrow> body \<noteq> [] \<Longrightarrow>
   titlelines item = Some a # tls \<Longrightarrow> a_href a = Some href \<Longrightarrow>
   s1 = s\<lparr>clock := clock s + 1, peak := max (peak s) (in_flight s + 1),
          log := log s @
            [ParsingItem (item_url self i),
             ReadURL (item_url self i) (Some code) (length body),
             News i (strip (a_text a)) href]\<rparr> \<Longrightarrow>
   fp = path_str
          (truediv (truediv (Path (root self)) i) (make_safe_filename (strip (a_text a)))) \<Longrightarrow>
   parse_item self e item s =
     (case disk e s1 fp of
        Some x \<Rightarrow> (Raise x, s1)
      | None \<Rightarrow>
          then_do (parse_comments self e body item (s1\<lparr>files := files s1 @ [(fp, body)]\<rparr>))
            (\<lambda>_ s3. (Return (Some (strip (a_text a), item_url self i)), s3)))
   \<and> (disk e s1 fp = None \<longrightarrow>
        (fp, body) \<in> set (files (snd (parse_item self e item s)))
        \<and> (\<forall>s3.
             parse_comments self e body item (s1\<lparr>files := files s1 @ [(fp, body)]\<rparr>)
               = (Return (), s3) \<longrightarrow>
             parse_item self e item s = (Return (Some (strip (a_text a), item_url self i)), s3)
             \<and> (parsed_news i = None \<longrightarrow>
                  news_step self e item parsed_news s =
                    (Return Continue,
                     parsed_news(i \<mapsto> (strip (a_text a), item_url self i)), s3))))"
proof -
  assume h: "0 < permits s" "e_id item = Some i"
    "net e (clock s) (item_url self i) = Response body ctype code" "body \<noteq> []"
    "titlelines item = Some a # tls" "a_href a = Some href"
  assume s1: "s1 = s\<lparr>clock := clock s + 1, peak := max (peak s) (in_flight s + 1),
          log := log s @
            [ParsingItem (item_url self i),
             ReadURL (item_url self i) (Some code) (length body),
             News i (strip (a_text a)) href]\<rparr>"
  assume fp: "fp = path_str
          (truediv (truediv (Path (root self)) i) (make_safe_filename (strip (a_text a))))"
  let ?s2 = "s1\<lparr>files := files s1 @ [(fp, body)]\<rparr>"
  let ?t = "(strip (a_text a), item_url self i)"
  have p: "parse_item self e item s =
     (case disk e s1 fp of
        Some x \<Rightarrow> (Raise x, s1)
      | None \<Rightarrow>
          then_do (parse_comments self e body item ?s2) (\<lambda>_ s3. (Return (Some ?t), s3)))"
    unfolding parse_item_payload [OF h] s1 fp
    by (simp add: write_file_def split: option.splits)
  have rest: "(fp, body) \<in> set (files (snd (parse_item self e item s)))
        \<and> (\<forall>s3. parse_comments self e body item ?s2 = (Return (), s3) \<longrightarrow>
             parse_item self e item s = (Return (Some ?t), s3)
             \<and> (parsed_news i = None \<longrightarrow>
                  news_step self e item parsed_news s =
                    (Return Continue, parsed_news(i \<mapsto> ?t), s3)))"
    if ok: "disk e s1 fp = None"
  proof -
    from p ok have q: "parse_item self e item s =
        then_do (parse_comments self e body item ?s2) (\<lambda>_ s3. (Return (Some ?t), s3))"
      by simp
    have "snd (parse_item self e item s) = snd (parse_comments self e body item ?s2)"
      unfolding q by (rule then_do_state_only)
    moreover have "extends ?s2 (snd (parse_comments self e body item ?s2))"
      by (rule parse_comments_extends)
    ultimately have a: "(fp, body) \<in> set (files (snd (parse_item self e item s)))"
      by (auto simp: extends_def)
    have b: "parse_item self e item s = (Return (Some ?t), s3)"
      if "parse_comments self e body item ?s2 = (Return (), s3)" for s3
      unfolding q using that by simp
    have c: "news_step self e item parsed_news s =
        (Return Continue, parsed_news(i \<mapsto> ?t), s3)"
      if "parse_comments self e body item ?s2 = (Return (), s3)" "parsed_news i = None" for s3
      using b [OF that(1)] that(2) h(2) by (simp add: news_step_def)
    show ?thesis
    proof (intro conjI allI impI)
      show "(fp, body) \<in> set (files (snd (parse_item self e item s)))"
        by (rule a)
    next
      fix s3
      assume "parse_comments self e body item ?s2 = (Return (), s3)"
      then show "parse_item self e item s = (Return (Some ?t), s3)"
        by (rule b)
    next
      fix s3
      assume "parse_comments self e body item ?s2 = (Return (), s3)" "parsed_news i = None"
      then show "news_step self e item parsed_news s =
          (Return Continue, parsed_news(i \<mapsto> ?t), s3)"
        by (rule c)
    qed
  qed
  show ?thesis
  proof (rule conjI)
    show "parse_item self e item s =
     (case disk e s1 fp of
        Some x \<Rightarrow> (Raise x, s1)
      | None \<Rightarrow>
          then_do (parse_comments self e body item ?s2) (\<lambda>_ s3. (Return (Some ?t), s3)))"
      by (rule p)
  next
    show "disk e s1 fp = None \<longrightarrow>
        (fp, body) \<in> set (files (snd (parse_item self e item s)))
        \<and> (\<forall>s3. parse_comments self e body item ?s2 = (Return (), s3) \<longrightarrow>
             parse_item self e item s = (Return (Some ?t), s3)
             \<and> (parsed_news i = None \<longrightarrow>
                  news_step self e item parsed_news s =
                    (Return Continue, parsed_news(i \<mapsto> ?t), s3)))"
      using rest by (rule impI)
  qed
qed

lemma example_news_step_125:
  "news_step example_crawler example_env story_125 Map.empty start =
   (Raise AttributeError, Map.empty,
    \<lparr>clock = 1, files = [(''web/125/Third.html'', ''Sorry'')],
     log = [ParsingItem ''https://news.ycombinator.com/item?id=125'',
            ReadURL ''https://news.ycombinator.com/item?id=125'' (Some 503) 5,
            News ''125'' ''Third'' ''http://x/d''],
     permits = 10, in_flight = 0, peak = 1\<rparr>)"
  by (simp add: example_defs crawler_defs)

text \<open>
  C9 as stated fails: story 125 answers 503 with the body \<^verbatim>\<open>Sorry\<close>, which has no
  table. The body is archived, then \<^verbatim>\<open>bs.table.find\<close> raises \<^verbatim>\<open>AttributeError\<close> in
  \<^verbatim>\<open>parse_comments\<close>, and the story is not inserted into \<^verbatim>\<open>parsed_news\<close>.
\<close>

theorem story_archived_counterexample:
  "net example_env 0 ''https://news.ycombinator.com/item?id=125'' = Response ''Sorry'' ''text/html'' 503
   \<and> fst (news_step example_crawler example_env story_125 Map.empty start) = Raise AttributeError
   \<and> fst (snd (news_step example_crawler example_env story_125 Map.empty start)) ''125'' = None
   \<and> files (snd (snd (news_step example_crawler example_env story_125 Map.empty start))) =
       [(''web/125/Third.html'', ''Sorry'')]"
proof -
  have "net example_env 0 ''https://news.ycombinator.com/item?id=125'' = Response ''Sorry'' ''text/html'' 503"
    by (simp add: example_defs)
  then show ?thesis
    by (simp only: example_news_step_125 fst_conv snd_conv state.simps)
qed

text \<open>The example: story 126 answers 404 with a page that has a table and no comments.\<close>

lemma example_parse_comments_126:
  "parse_comments example_crawler example_env ''<item 126>'' story_126 s = (Return (), s)"
  by (simp add: example_defs parse_comments_def)

theorem story_archived_whatever_status_witness:
  "(''web/126/Fourth.html'', ''<item 126>'')
     \<in> set (files (snd (parse_item example_crawler example_env story_126 start)))
   \<and> fst (news_step example_crawler example_env story_126 Map.empty start) = Return Continue
   \<and> fst (snd (news_step example_crawler example_env story_126 Map.empty start)) ''126''
       = Some (''Fourth'', ''https://news.ycombinator.com/item?id=126'')"
proof -
  let ?a = "\<lparr>a_text = '' Fourth '', a_href = Some ''http://x/e''\<rparr>"
  let ?s1 = "start\<lparr>clock := clock start + 1, peak := max (peak start) (in_flight start + 1),
          log := log start @
            [ParsingItem (item_url example_crawler ''126''),
             ReadURL (item_url example_crawler ''126'') (Some 404) (length ''<item 126>''),
             News ''126'' (strip (a_text ?a)) ''http://x/e'']\<rparr>"
  let ?fp = "path_str (truediv (truediv (Path (root example_crawler)) ''126'')
      (make_safe_filename (strip (a_text ?a))))"
  have h: "0 < permits start" "e_id story_126 = Some ''126''"
    "net example_env (clock start) (item_url example_crawler ''126'')
       = Response ''<item 126>'' ''text/html'' 404"
    "''<item 126>'' \<noteq> []" "titlelines story_126 = Some ?a # []"
    "a_href ?a = Some ''http://x/e''"
    by (simp_all add: example_defs item_url_def)
  have ok: "disk example_env ?s1 ?fp = None"
    by (simp add: example_env_def)
  have e: "Map.empty ''126'' = (None :: (string \<times> string) option)" by simp
  have n: "?fp = ''web/126/Fourth.html''"
    "item_url example_crawler ''126'' = ''https://news.ycombinator.com/item?id=126''"
    "strip '' Fourth '' = ''Fourth''"
    by (simp_all add: example_crawler_def make_safe_filename_def strip_def
        strip_chars_def safe_char_def isalnum_def isspace_def item_url_def
        Path_def truediv_def path_str_def Let_def)
  note t = story_archived_whatever_status [OF h refl refl, where parsed_news = Map.empty]
  note u = t [THEN conjunct2, rule_format, OF ok]
  note b = u [THEN conjunct2, rule_format, OF example_parse_comments_126]
  note c = b [THEN conjunct2, rule_format, OF e]
  from u [THEN conjunct1] have f: "(''web/126/Fourth.html'', ''<item 126>'')
     \<in> set (files (snd (parse_item example_crawler example_env story_126 start)))"
    by (simp only: n)
  from c have
    "fst (news_step example_crawler example_env story_126 Map.empty start) = Return Continue"
    "fst (snd (news_step example_crawler example_env story_126 Map.empty start)) ''126''
       = Some (''Fourth'', ''https://news.ycombinator.com/item?id=126'')"
    by (simp_all add: n)
  with f show ?thesis by (intro conjI)
qed

subsection \<open>The crawl loop\<close>

text \<open>
  C2. Let the identifier \<open>i\<close> be a key of \<^verbatim>\<open>parsed_news\<close> at any point of the run.
  Then the rest of the current cycle (the \<^verbatim>\<open>for\<close> loop over any remaining entries) and
  any number of later polling cycles add no invocation of \<^verbatim>\<open>parse_item\<close> for \<open>i\<close>, and
  \<open>i\<close> keeps its value in \<^verbatim>\<open>parsed_news\<close>; an entry with that identifier is skipped
  with the debug record \<^verbatim>\<open>News item <i> already parsed\<close>.
\<close>

theorem seen_story_never_dispatched_again:
  "parsed_news i = Some t \<Longrightarrow>
   invocations self i (snd (snd (for_news self e items parsed_news s))) = invocations self i s
   \<and> fst (snd (for_news self e items parsed_news s)) i = Some t
   \<and> invocations self i (snd (snd (cycles fuel self e parsed_news s))) = invocations self i s
   \<and> fst (snd (cycles fuel self e parsed_news s)) i = Some t
   \<and> (e_id news_item = Some i \<longrightarrow>
        news_step self e news_item parsed_news s =
          (Return Continue, parsed_news, logging (AlreadyParsed i) s))"
proof -
  assume t: "parsed_news i = Some t"
  then have d: "parsed_news i \<noteq> None \<or> Some i \<notin> e_id ` set items" and n: "parsed_news i \<noteq> None"
    by simp_all
  have a: "invocations self i (snd (snd (for_news self e items parsed_news s))) = invocations self i s
      \<and> fst (snd (for_news self e items parsed_news s)) i = parsed_news i"
    using d by (rule for_news_seen)
  have b: "invocations self i (snd (snd (cycles fuel self e parsed_news s))) = invocations self i s
      \<and> fst (snd (cycles fuel self e parsed_news s)) i = parsed_news i"
    using n by (rule cycles_seen)
  have c: "e_id news_item = Some i \<longrightarrow>
        news_step self e news_item parsed_news s =
          (Return Continue, parsed_news, logging (AlreadyParsed i) s)"
    using t by (simp add: news_step_seen)
  from a b c t show ?thesis by simp
qed

text \<open>The example: story 123 is already in \<^verbatim>\<open>parsed_news\<close>.\<close>

lemma example_invocations_start: "invocations example_crawler i start = 0"
  by (simp add: invocations_def start_def)

theorem seen_story_never_dispatched_again_witness:
  "invocations example_crawler ''123''
     (snd (snd (for_news example_crawler example_env [story_124, story_123]
        [''123'' \<mapsto> (''Hello World'', ''https://news.ycombinator.com/item?id=123'')] start))) = 0
   \<and> invocations example_crawler ''123''
     (snd (snd (cycles 2 example_crawler example_env
        [''123'' \<mapsto> (''Hello World'', ''https://news.ycombinator.com/item?id=123'')] start))) = 0
   \<and> news_step example_crawler example_env story_123
        [''123'' \<mapsto> (''Hello World'', ''https://news.ycombinator.com/item?id=123'')] start =
      (Return Continue,
       [''123'' \<mapsto> (''Hello World'', ''https://news.ycombinator.com/item?id=123'')],
       logging (AlreadyParsed ''123'') start)"
proof -
  let ?pn = "[''123'' \<mapsto> (''Hello World'', ''https://news.ycombinator.com/item?id=123'')]"
  have h: "?pn ''123'' = Some (''Hello World'', ''https://news.ycombinator.com/item?id=123'')"
    by simp
  have i: "e_id story_123 = Some ''123''"
    by (simp add: story_123_def)
  from seen_story_never_dispatched_again [where parsed_news = ?pn and i = "''123''"
      and t = "(''Hello World'', ''https://news.ycombinator.com/item?id=123'')"
      and self = example_crawler and e = example_env and items = "[story_124, story_123]"
      and s = start and fuel = 2 and news_item = story_123] h i
  show ?thesis
    by (simp only: example_invocations_start)
qed











text \<open>
  C10. Within one cycle, let an entry with identifier \<open>i\<close> be the first one with that
  identifier, with \<open>i\<close> absent from \<^verbatim>\<open>parsed_news\<close>, and let \<^verbatim>\<open>parse_item\<close> return a
  pair for it. Then the whole loop, whatever entries follow (the same identifier among
  them) and however it ends, invokes \<^verbatim>\<open>parse_item\<close> for \<open>i\<close> exactly once.
\<close>

theorem duplicate_id_dispatched_once:
  "e_id news_item = Some i \<Longrightarrow> Some i \<notin> e_id ` set before \<Longrightarrow> parsed_news i = None \<Longrightarrow>
   for_news self e before parsed_news s = (Return Continue, pn1, s1) \<Longrightarrow>
   parse_item self e news_item s1 = (Return (Some t), s2) \<Longrightarrow>
   invocations self i (snd (snd (for_news self e (before @ news_item # rest) parsed_news s)))
     = invocations self i s + 1"
proof -
  assume h: "e_id news_item = Some i" "Some i \<notin> e_id ` set before" "parsed_news i = None"
    "for_news self e before parsed_news s = (Return Continue, pn1, s1)"
    "parse_item self e news_item s1 = (Return (Some t), s2)"
  have "parsed_news i \<noteq> None \<or> Some i \<notin> e_id ` set before"
    using h(2) by simp
  then have "invocations self i (snd (snd (for_news self e before parsed_news s))) = invocations self i s
      \<and> fst (snd (for_news self e before parsed_news s)) i = parsed_news i"
    by (rule for_news_seen)
  with h(3,4) have b: "invocations self i s1 = invocations self i s" "pn1 i = None"
    by simp_all
  from h(1,5) b(2) have st: "news_step self e news_item pn1 s1 = (Return Continue, pn1(i \<mapsto> t), s2)"
    by (simp add: news_step_def)
  from parse_item_invocations [OF h(1), of self i e s1] h(5)
  have i2: "invocations self i s2 = invocations self i s1 + 1"
    by simp
  have "(pn1(i \<mapsto> t)) i \<noteq> None \<or> Some i \<notin> e_id ` set rest"
    by simp
  then have "invocations self i (snd (snd (for_news self e rest (pn1(i \<mapsto> t)) s2))) = invocations self i s2
      \<and> fst (snd (for_news self e rest (pn1(i \<mapsto> t)) s2)) i = (pn1(i \<mapsto> t)) i"
    by (rule for_news_seen)
  with i2 b(1) st h(4) show ?thesis
    by (simp add: for_news_append)
qed

text \<open>The example: story 124, then story 123, then story 124 and story 123 again.\<close>

lemma example_for_news_124:
  "for_news example_crawler example_env [story_124] Map.empty start =
     (Return Continue, Map.empty,
      snd (snd (for_news example_crawler example_env [story_124] Map.empty start)))"
  by (simp add: example_defs crawler_defs)

lemma example_parse_item_123_later:
  "parse_item example_crawler example_env story_123
     (snd (snd (for_news example_crawler example_env [story_124] Map.empty start))) =
   (Return (Some (''Hello World'', ''https://news.ycombinator.com/item?id=123'')),
    snd (parse_item example_crawler example_env story_123
      (snd (snd (for_news example_crawler example_env [story_124] Map.empty start)))))"
  by (simp add: example_defs crawler_defs)

theorem duplicate_id_dispatched_once_witness:
  "invocations example_crawler ''123''
     (snd (snd (for_news example_crawler example_env
        ([story_124] @ story_123 # [story_124, story_123]) Map.empty start))) = 1"
proof -
  have h: "e_id story_123 = Some ''123''" "Some ''123'' \<notin> e_id ` set [story_124]"
    "Map.empty ''123'' = (None :: (string \<times> string) option)"
    by (simp_all add: example_defs)
  from duplicate_id_dispatched_once [OF h example_for_news_124 example_parse_item_123_later,
      of "[story_124, story_123]"]
  show ?thesis by (simp only: example_invocations_start)
qed

subsection \<open>The admission gate bounds the fetches in flight\<close>


lemma logging_gate [simp]:
  "gate_inv cap (logging r s) = gate_inv cap s"
  "in_flight (logging r s) = in_flight s"
  "permits (logging r s) = permits s"
  "peak (logging r s) = peak s"
  by (simp_all add: gate_inv_def logging_def)








end
